theory Spec2Isabelle
  imports Complex_Main "HOL-Library.AList"
begin

section \<open>Data model\<close>

text \<open>
  JavaScript numbers are modelled as \<^typ>\<open>real\<close> (finite values, exact arithmetic): no
  NaN, no infinities, no rounding. An optional field (\<^verbatim>\<open>gravity?: number\<close>) is an
  \<^typ>\<open>'a option\<close>, \<^verbatim>\<open>undefined\<close> being \<^term>\<open>None\<close>.

  Field names follow \<^verbatim>\<open>Entity\<close> in entity.ts, except \<^verbatim>\<open>id\<close>, \<^verbatim>\<open>x\<close>, \<^verbatim>\<open>y\<close>, which are
  \<open>ident\<close>, \<open>xpos\<close>, \<open>ypos\<close> here. The \<^verbatim>\<open>data\<close> bag (a \<^verbatim>\<open>Map<string, any>\<close>) is an
  association list of dynamically typed values; \<^verbatim>\<open>behaviors\<close> (a \<^verbatim>\<open>Map<string, Behavior>\<close>)
  is the list of its keys in attachment order, the hook closures themselves living in a
  behaviour table that the operations take as a parameter.
\<close>

datatype jsval = Num real | Str string | Bool bool | Null | Undefined

record entity =
  ident :: string
  xpos :: real
  ypos :: real
  width :: real
  height :: real
  velocityX :: real
  velocityY :: real
  acceleration :: real
  gravity :: "real option"
  friction :: "real option"
  color :: string
  solid :: bool
  bouncy :: bool
  bounceCoefficient :: "real option"
  mass :: real
  tags :: "string list"
  active :: bool
  visible :: bool
  onGround :: bool
  behaviors :: "string list"
  data :: "(string \<times> jsval) list"

definition hasTag :: "entity \<Rightarrow> string \<Rightarrow> bool" where
  "hasTag e t = (t \<in> set (tags e))"

section \<open>Physics (physics.ts)\<close>

record physics =
  worldGravity :: real
  worldFriction :: real
  terminalVelocity :: real
  defaultBounceCoefficient :: real

datatype direction = DTop | DBottom | DLeft | DRight

record CollisionResult =
  collided :: bool
  direction :: "direction option"
  overlap :: "real option"

text \<open>\<^verbatim>\<open>a ?? b\<close>: the default is taken when the value is absent.\<close>

definition nullish :: "'a option \<Rightarrow> 'a \<Rightarrow> 'a" where
  "nullish v d = (case v of None \<Rightarrow> d | Some w \<Rightarrow> w)"

text \<open>The constructor \<^verbatim>\<open>new Physics(options)\<close>.\<close>

definition Physics_new :: "real option \<Rightarrow> real option \<Rightarrow> real option \<Rightarrow> real option \<Rightarrow> physics" where
  "Physics_new g f tv bc =
     \<lparr>worldGravity = nullish g 0.5, worldFriction = nullish f 0.8,
      terminalVelocity = nullish tv 10, defaultBounceCoefficient = nullish bc 0.3\<rparr>"

text \<open>\<^verbatim>\<open>Physics.update(entity)\<close>: one frame of gravity, friction, clamping and integration.\<close>

definition Physics_update :: "physics \<Rightarrow> entity \<Rightarrow> entity" where
  "Physics_update ph e =
     (let previousY = ypos e;
          e1 = (if \<not> onGround e
                then e\<lparr>velocityY := velocityY e + nullish (gravity e) (worldGravity ph)\<rparr>
                else e);
          e2 = (if onGround e1
                then (let e' = e1\<lparr>velocityX := velocityX e1 * nullish (friction e1) (worldFriction ph)\<rparr>
                      in if \<bar>velocityX e'\<bar> < 0.1 then e'\<lparr>velocityX := 0\<rparr> else e')
                else e1);
          e3 = (if velocityY e2 > terminalVelocity ph
                then e2\<lparr>velocityY := terminalVelocity ph\<rparr> else e2);
          e4 = e3\<lparr>xpos := xpos e3 + velocityX e3\<rparr>;
          e5 = e4\<lparr>ypos := ypos e4 + velocityY e4\<rparr>
      in if ypos e5 - previousY > 1 \<and> onGround e5 then e5\<lparr>onGround := False\<rparr> else e5)"

text \<open>The four penetration depths of \<^verbatim>\<open>detectCollision\<close> and their minimum.\<close>

definition overlapLeft :: "entity \<Rightarrow> entity \<Rightarrow> real" where
  "overlapLeft a b = (xpos a + width a) - xpos b"

definition overlapRight :: "entity \<Rightarrow> entity \<Rightarrow> real" where
  "overlapRight a b = (xpos b + width b) - xpos a"

definition overlapTop :: "entity \<Rightarrow> entity \<Rightarrow> real" where
  "overlapTop a b = (ypos a + height a) - ypos b"

definition overlapBottom :: "entity \<Rightarrow> entity \<Rightarrow> real" where
  "overlapBottom a b = (ypos b + height b) - ypos a"

definition minOverlap :: "entity \<Rightarrow> entity \<Rightarrow> real" where
  "minOverlap a b =
     min (min (min (overlapLeft a b) (overlapRight a b)) (overlapTop a b)) (overlapBottom a b)"

text \<open>The bounds test of \<^verbatim>\<open>detectCollision\<close>: true when the two boxes do not overlap.\<close>

definition boundsApart :: "entity \<Rightarrow> entity \<Rightarrow> bool" where
  "boundsApart a b =
     (xpos a + width a \<le> xpos b \<or> xpos a \<ge> xpos b + width b \<or>
      ypos a + height a \<le> ypos b \<or> ypos a \<ge> ypos b + height b)"

text \<open>
  \<^verbatim>\<open>Physics.detectCollision(a, b)\<close>. An \<^verbatim>\<open>Entity\<close> always owns a \<^verbatim>\<open>tags\<close> array, so
  \<^verbatim>\<open>b.hasOwnProperty('tags') && b.tags?.includes('platform')\<close> is \<^term>\<open>hasTag b ''platform''\<close>.
\<close>

definition detectCollision :: "entity \<Rightarrow> entity \<Rightarrow> CollisionResult" where
  "detectCollision a b =
     (if \<not> solid a \<or> \<not> solid b then \<lparr>collided = False, direction = None, overlap = None\<rparr>
      else if boundsApart a b then \<lparr>collided = False, direction = None, overlap = None\<rparr>
      else
        (let m = minOverlap a b;
             d = (if hasTag b ''platform'' \<and> velocityY a > 0
                  then (if overlapTop a b < height a / 2 then DTop
                        else if m = overlapLeft a b then DLeft
                        else if m = overlapRight a b then DRight
                        else if m = overlapBottom a b then DBottom
                        else DTop)
                  else (if m = overlapTop a b then DTop
                        else if m = overlapBottom a b then DBottom
                        else if m = overlapLeft a b then DLeft
                        else DRight))
         in \<lparr>collided = True, direction = Some d, overlap = Some m\<rparr>))"

text \<open>
  \<^verbatim>\<open>Physics.resolveCollision(a, b, result)\<close>; only \<open>a\<close> is changed. The guard returns early on
  a result that is not collided, has no direction, or whose overlap is absent or zero.
\<close>

definition resolveCollision :: "physics \<Rightarrow> entity \<Rightarrow> entity \<Rightarrow> CollisionResult \<Rightarrow> entity" where
  "resolveCollision ph a b r =
     (if \<not> collided r \<or> direction r = None \<or> overlap r = None \<or> overlap r = Some 0 then a
      else
        (let bc = (if bouncy a then nullish (bounceCoefficient a) (defaultBounceCoefficient ph) else 0)
         in case direction r of
              Some DTop \<Rightarrow>
                (if velocityY a \<ge> 0
                 then a\<lparr>ypos := ypos b - height a, velocityY := 0, onGround := True\<rparr>
                 else a)
            | Some DBottom \<Rightarrow> a\<lparr>ypos := ypos b + height b, velocityY := - velocityY a * bc\<rparr>
            | Some DLeft \<Rightarrow> a\<lparr>xpos := xpos b - width a, velocityX := - velocityX a * bc\<rparr>
            | Some DRight \<Rightarrow> a\<lparr>xpos := xpos b + width b, velocityX := - velocityX a * bc\<rparr>
            | None \<Rightarrow> a))"

text \<open>The penetration depth that belongs to a direction.\<close>

fun overlapOf :: "direction \<Rightarrow> entity \<Rightarrow> entity \<Rightarrow> real" where
  "overlapOf DTop a b = overlapTop a b"
| "overlapOf DBottom a b = overlapBottom a b"
| "overlapOf DLeft a b = overlapLeft a b"
| "overlapOf DRight a b = overlapRight a b"

text \<open>
  \<^verbatim>\<open>Physics.checkCollisions(entity, others)\<close>. Objects are identified by the key under which
  the scene holds them: \<^verbatim>\<open>entity === other\<close> is equality of keys. Only \<open>entity\<close> is changed.
\<close>

definition checkCollisions ::
  "physics \<Rightarrow> string \<Rightarrow> entity \<Rightarrow> (string \<times> entity) list \<Rightarrow> entity" where
  "checkCollisions ph k e others =
     foldl (\<lambda>a (j, other).
              if j = k then a
              else (let r = detectCollision a other
                    in if collided r then resolveCollision ph a other r else a))
           e others"

text \<open>
  The loop of \<^verbatim>\<open>checkCollisions\<close> written out, for stating what a pass does to an entity:
  the entity held under \<open>k\<close> after \<^verbatim>\<open>detectCollision\<close> and, on a hit, \<^verbatim>\<open>resolveCollision\<close>
  against each of the others in turn, itself skipped.
\<close>

abbreviation resolvedAgainst :: "physics \<Rightarrow> string \<Rightarrow> entity \<Rightarrow> (string \<times> entity) list \<Rightarrow> entity" where
  "resolvedAgainst ph k e others \<equiv>
     foldl (\<lambda>a (j, other).
              if j = k then a
              else (let r = detectCollision a other
                    in if collided r then resolveCollision ph a other r else a))
           e others"

section \<open>Entity behaviours (entity.ts)\<close>

text \<open>
  A behaviour's \<^verbatim>\<open>update\<close> hook is a closure supplied by the host. It is modelled as a
  function of the scene's entity map as the closure can read it, of its own entity and of
  the delta time, returning the entity as the hook leaves it and the calls to
  \<^verbatim>\<open>Scene.addEntity\<close> and \<^verbatim>\<open>Scene.removeEntity\<close> it makes, in order. A hook does not write
  to other entities and does not attach or detach behaviours.
\<close>

datatype scene_call = AddEntity entity | RemoveEntity string

record Behavior =
  update_hook :: "((string \<times> entity) list \<Rightarrow> entity \<Rightarrow> real \<Rightarrow> entity \<times> scene_call list) option"

type_synonym behavior_table = "string \<Rightarrow> Behavior"

text \<open>\<^verbatim>\<open>Entity.update(deltaTime)\<close>: nothing when inactive, else every behaviour's hook in order.\<close>

definition Entity_update ::
  "behavior_table \<Rightarrow> (string \<times> entity) list \<Rightarrow> entity \<Rightarrow> real \<Rightarrow> entity \<times> scene_call list" where
  "Entity_update bt view e dt =
     (if \<not> active e then (e, [])
      else foldl (\<lambda>(e1, cs) n.
                    case update_hook (bt n) of
                      None \<Rightarrow> (e1, cs)
                    | Some h \<Rightarrow> (let (e2, cs2) = h view e1 dt in (e2, cs @ cs2)))
                 (e, []) (behaviors e))"

section \<open>Scene (scene.ts)\<close>

text \<open>
  \<^verbatim>\<open>entities\<close> is a JavaScript \<^verbatim>\<open>Map\<close>: an association list in insertion order, where
  \<^verbatim>\<open>set\<close> on a present key replaces the value in place and on an absent key appends
  (\<^const>\<open>AList.update\<close>), and \<^verbatim>\<open>delete\<close> drops the entry (\<^const>\<open>AList.delete\<close>).
\<close>

record scene =
  sceneName :: string
  entities :: "(string \<times> entity) list"
  scenePhysics :: physics
  backgroundColor :: string
  entitiesToAdd :: "entity list"
  entitiesToRemove :: "string list"
  isUpdating :: bool

definition Scene_new :: "string \<Rightarrow> real option \<Rightarrow> real option \<Rightarrow> string option \<Rightarrow> scene" where
  "Scene_new n g f bg =
     \<lparr>sceneName = n, entities = [], scenePhysics = Physics_new g f None None,
      backgroundColor = (case bg of None \<Rightarrow> ''#000'' | Some c \<Rightarrow> if c = [] then ''#000'' else c),
      entitiesToAdd = [], entitiesToRemove = [], isUpdating = False\<rparr>"

definition addEntity :: "scene \<Rightarrow> entity \<Rightarrow> scene" where
  "addEntity s e =
     (if isUpdating s then s\<lparr>entitiesToAdd := entitiesToAdd s @ [e]\<rparr>
      else s\<lparr>entities := AList.update (ident e) e (entities s)\<rparr>)"

text \<open>
  \<^verbatim>\<open>removeEntity\<close> also calls \<^verbatim>\<open>entity.destroy()\<close> on the entity it drops; that entity
  leaves the scene, so its final state is not part of the scene's state.
\<close>

definition removeEntity :: "scene \<Rightarrow> string \<Rightarrow> scene" where
  "removeEntity s k =
     (if isUpdating s then s\<lparr>entitiesToRemove := entitiesToRemove s @ [k]\<rparr>
      else (case map_of (entities s) k of
              Some e \<Rightarrow> s\<lparr>entities := AList.delete k (entities s)\<rparr>
            | None \<Rightarrow> s))"

text \<open>\<^verbatim>\<open>getEntitiesByTag\<close> returns references: here, the keys, in map order.\<close>

definition getEntitiesByTag :: "scene \<Rightarrow> string \<Rightarrow> string list" where
  "getEntitiesByTag s t = map fst (filter (\<lambda>(k, e). hasTag e t) (entities s))"

definition clear :: "scene \<Rightarrow> scene" where
  "clear s = s\<lparr>entities := [], entitiesToAdd := [], entitiesToRemove := []\<rparr>"

text \<open>
  \<^verbatim>\<open>processPendingEntities\<close>: two \<^verbatim>\<open>while\<close> loops that \<^verbatim>\<open>pop()\<close> from the end of each
  buffer. The guard \<^verbatim>\<open>if (entityId)\<close> skips the empty string.
\<close>

function drainAdds :: "scene \<Rightarrow> scene" where
  "drainAdds s =
     (if entitiesToAdd s = [] then s
      else (let e = last (entitiesToAdd s);
                s1 = s\<lparr>entitiesToAdd := butlast (entitiesToAdd s)\<rparr>
            in drainAdds (s1\<lparr>entities := AList.update (ident e) e (entities s1)\<rparr>)))"
  by pat_completeness auto
termination
  by (relation "measure (\<lambda>s. length (entitiesToAdd s))") auto

function drainRemoves :: "scene \<Rightarrow> scene" where
  "drainRemoves s =
     (if entitiesToRemove s = [] then s
      else (let k = last (entitiesToRemove s);
                s1 = s\<lparr>entitiesToRemove := butlast (entitiesToRemove s)\<rparr>
            in drainRemoves
                 (if k \<noteq> [] then
                    (case map_of (entities s1) k of
                       Some e \<Rightarrow> s1\<lparr>entities := AList.delete k (entities s1)\<rparr>
                     | None \<Rightarrow> s1)
                  else s1)))"
  by pat_completeness auto
termination
  by (relation "measure (\<lambda>s. length (entitiesToRemove s))") (auto split: option.splits)

definition processPendingEntities :: "scene \<Rightarrow> scene" where
  "processPendingEntities s = drainRemoves (drainAdds s)"

fun applyCall :: "scene \<Rightarrow> scene_call \<Rightarrow> scene" where
  "applyCall s (AddEntity e) = addEntity s e"
| "applyCall s (RemoveEntity k) = removeEntity s k"

text \<open>
  The first loop of \<^verbatim>\<open>Scene.update\<close> is \<^verbatim>\<open>this.entities.forEach\<close>, which iterates over the
  live map: an entry appended during the iteration is visited as well. The loop is
  therefore a cursor over the current list, not over a copy taken at the start, and
  may not return; \<^term>\<open>None\<close> is the loop that runs forever. (A cursor is exact as long as
  no entry is deleted during the iteration.) One visit updates the entity in place, applies
  the calls its hooks made, and files its key under platforms or physics entities.
\<close>

definition visitEntity ::
  "behavior_table \<Rightarrow> real \<Rightarrow> nat \<Rightarrow> scene \<times> string list \<times> string list
     \<Rightarrow> scene \<times> string list \<times> string list" where
  "visitEntity bt dt i st =
     (case st of (s, physicsEntities, platformEntities) \<Rightarrow>
        (case entities s ! i of (k, e) \<Rightarrow>
           if active e then
             (case Entity_update bt (entities s) e dt of (e1, calls) \<Rightarrow>
                (let s1 = s\<lparr>entities := (entities s)[i := (k, e1)]\<rparr>;
                     s2 = foldl applyCall s1 calls
                 in if hasTag e1 ''platform''
                    then (s2, physicsEntities, platformEntities @ [k])
                    else (s2, physicsEntities @ [k], platformEntities)))
           else st))"

partial_function (option) collectLoop ::
  "behavior_table \<Rightarrow> real \<Rightarrow> nat \<Rightarrow> scene \<times> string list \<times> string list
     \<Rightarrow> (scene \<times> string list \<times> string list) option" where
  "collectLoop bt dt i st =
     (if i < length (entities (fst st))
      then collectLoop bt dt (Suc i) (visitEntity bt dt i st)
      else Some st)"

declare collectLoop.simps [code]

text \<open>
  The second loop, \<^verbatim>\<open>physicsEntities.forEach\<close>, runs over the array of references built by
  the first. Each entity is advanced by \<^verbatim>\<open>Physics.update\<close> and then checked against the
  current state of the other physics entities and of the platforms.
\<close>

definition lookupAll :: "(string \<times> entity) list \<Rightarrow> string list \<Rightarrow> (string \<times> entity) list" where
  "lookupAll ents ks = List.map_filter (\<lambda>j. map_option (Pair j) (map_of ents j)) ks"

definition physicsEntity ::
  "physics \<Rightarrow> string list \<Rightarrow> string list \<Rightarrow> (string \<times> entity) list \<Rightarrow> string
     \<Rightarrow> (string \<times> entity) list" where
  "physicsEntity ph physicsEntities platformEntities ents k =
     (case map_of ents k of
        None \<Rightarrow> ents
      | Some e \<Rightarrow>
          (let e1 = Physics_update ph e;
               ents1 = AList.map_entry k (\<lambda>_. e1) ents;
               e2 = checkCollisions ph k e1 (lookupAll ents1 physicsEntities);
               e3 = checkCollisions ph k e2 (lookupAll ents1 platformEntities)
           in AList.map_entry k (\<lambda>_. e3) ents1))"

definition physicsPass :: "string list \<Rightarrow> string list \<Rightarrow> scene \<Rightarrow> scene" where
  "physicsPass physicsEntities platformEntities s =
     s\<lparr>entities := foldl (physicsEntity (scenePhysics s) physicsEntities platformEntities)
                      (entities s) physicsEntities\<rparr>"

text \<open>
  \<^verbatim>\<open>Scene.update(deltaTime)\<close> up to and including the physics loop, with
  \<^verbatim>\<open>isUpdating\<close> still set; the scene and the two arrays it built.
\<close>

definition updatePass ::
  "behavior_table \<Rightarrow> scene \<Rightarrow> real \<Rightarrow> (scene \<times> string list \<times> string list) option" where
  "updatePass bt s dt =
     (case collectLoop bt dt 0 (s\<lparr>isUpdating := True\<rparr>, [], []) of
        None \<Rightarrow> None
      | Some (s1, physicsEntities, platformEntities) \<Rightarrow>
          Some (physicsPass physicsEntities platformEntities s1, physicsEntities, platformEntities))"

definition Scene_update :: "behavior_table \<Rightarrow> scene \<Rightarrow> real \<Rightarrow> scene option" where
  "Scene_update bt s dt =
     (case updatePass bt s dt of
        None \<Rightarrow> None
      | Some (s1, physicsEntities, platformEntities) \<Rightarrow>
          Some (processPendingEntities (s1\<lparr>isUpdating := False\<rparr>)))"

text \<open>
  For stating what happens while the first loop runs: the state of the pass after the first
  \<open>j\<close> entries of the map have been visited, and the additions and removals among the
  calls a hook made.
\<close>

definition passPrefix ::
  "behavior_table \<Rightarrow> real \<Rightarrow> scene \<Rightarrow> nat \<Rightarrow> scene \<times> string list \<times> string list" where
  "passPrefix bt dt s j =
     foldl (\<lambda>st i. visitEntity bt dt i st) (s\<lparr>isUpdating := True\<rparr>, [], []) [0..<j]"

fun addsOf :: "scene_call list \<Rightarrow> entity list" where
  "addsOf [] = []"
| "addsOf (AddEntity e # cs) = e # addsOf cs"
| "addsOf (RemoveEntity k # cs) = addsOf cs"

fun removesOf :: "scene_call list \<Rightarrow> string list" where
  "removesOf [] = []"
| "removesOf (AddEntity e # cs) = removesOf cs"
| "removesOf (RemoveEntity k # cs) = k # removesOf cs"

text \<open>
  The keys that the first loop files under physics entities and under platforms when no
  hook changes a tag or an \<^verbatim>\<open>active\<close> flag, and the positions held by a scene.
\<close>

definition physicsKeys :: "(string \<times> entity) list \<Rightarrow> string list" where
  "physicsKeys ents = map fst (filter (\<lambda>(k, e). active e \<and> \<not> hasTag e ''platform'') ents)"

definition platformKeys :: "(string \<times> entity) list \<Rightarrow> string list" where
  "platformKeys ents = map fst (filter (\<lambda>(k, e). active e \<and> hasTag e ''platform'') ents)"

definition positions :: "scene \<Rightarrow> (string \<times> real \<times> real) list" where
  "positions s = map (\<lambda>(k, e). (k, xpos e, ypos e)) (entities s)"

section \<open>Entity construction (entity.ts)\<close>

text \<open>
  \<^verbatim>\<open>a || b\<close> on an optional number or string: the default is taken when the value is absent
  or falsy (\<open>0\<close>, the empty string).
\<close>

definition orNum :: "real option \<Rightarrow> real \<Rightarrow> real" where
  "orNum v d = (case v of None \<Rightarrow> d | Some w \<Rightarrow> if w = 0 then d else w)"

definition orStr :: "string option \<Rightarrow> string \<Rightarrow> string" where
  "orStr v d = (case v of None \<Rightarrow> d | Some w \<Rightarrow> if w = [] then d else w)"

definition numVal :: "real option \<Rightarrow> jsval" where
  "numVal v = (case v of None \<Rightarrow> Undefined | Some w \<Rightarrow> Num w)"

record EntityOptions =
  optId :: "string option"
  optX :: real
  optY :: real
  optWidth :: real
  optHeight :: real
  optVelocityX :: "real option"
  optVelocityY :: "real option"
  optAcceleration :: "real option"
  optGravity :: "real option"
  optFriction :: "real option"
  optColor :: "string option"
  optSolid :: "bool option"
  optBouncy :: "bool option"
  optBounceCoefficient :: "real option"
  optMass :: "real option"
  optTags :: "string list option"
  optActive :: "bool option"
  optVisible :: "bool option"

definition options :: "real \<Rightarrow> real \<Rightarrow> real \<Rightarrow> real \<Rightarrow> EntityOptions" where
  "options x y w h =
     \<lparr>optId = None, optX = x, optY = y, optWidth = w, optHeight = h, optVelocityX = None,
      optVelocityY = None, optAcceleration = None, optGravity = None, optFriction = None,
      optColor = None, optSolid = None, optBouncy = None, optBounceCoefficient = None,
      optMass = None, optTags = None, optActive = None, optVisible = None\<rparr>"

text \<open>
  The constructor of \<^verbatim>\<open>Entity\<close>. Without \<^verbatim>\<open>options.id\<close> the id is made from the clock and
  a random number; \<open>generated\<close> stands for that string.
\<close>

definition Entity_new :: "string \<Rightarrow> EntityOptions \<Rightarrow> entity" where
  "Entity_new generated opts =
     \<lparr>ident = orStr (optId opts) generated,
      xpos = optX opts, ypos = optY opts, width = optWidth opts, height = optHeight opts,
      velocityX = orNum (optVelocityX opts) 0, velocityY = orNum (optVelocityY opts) 0,
      acceleration = orNum (optAcceleration opts) 0,
      gravity = optGravity opts, friction = optFriction opts,
      color = orStr (optColor opts) ''#fff'',
      solid = nullish (optSolid opts) True,
      bouncy = nullish (optBouncy opts) False,
      bounceCoefficient = optBounceCoefficient opts,
      mass = orNum (optMass opts) 1,
      tags = nullish (optTags opts) [],
      active = nullish (optActive opts) True,
      visible = nullish (optVisible opts) True,
      onGround = False, behaviors = [], data = []\<rparr>"

definition setData :: "string \<Rightarrow> jsval \<Rightarrow> entity \<Rightarrow> entity" where
  "setData key v e = e\<lparr>data := AList.update key v (data e)\<rparr>"

definition getData :: "entity \<Rightarrow> string \<Rightarrow> jsval" where
  "getData e key = (case map_of (data e) key of None \<Rightarrow> Undefined | Some v \<Rightarrow> v)"

section \<open>Game parameters consumed by the engine\<close>

text \<open>
  \<^verbatim>\<open>gameData.parameters\<close> is untyped JSON. Its blocks and fields are optional; the names are
  those of the source, prefixed where two blocks use the same name.
\<close>

record platform_params =
  platX :: "real option"
  platY :: "real option"
  platWidth :: "real option"
  platHeight :: "real option"
  platColor :: "string option"
  platSprite :: "string option"
  platType :: "string option"
  movingPlatform :: bool
  moveSpeed :: "real option"
  moveDistance :: "real option"
  moveDirection :: "string option"
  disappearDuration :: "real option"

record level_params =
  levelName :: "string option"
  platforms :: "platform_params list option"
  background :: "string option"
  requiredCollectibles :: "real option"

record world_params =
  worldWidth :: "real option"
  worldHeight :: "real option"
  levels :: "level_params list option"

record player_params =
  startX :: "real option"
  startY :: "real option"
  playerSize :: "real option"
  playerAcceleration :: "real option"
  playerColor :: "string option"
  playerSpeed :: "real option"
  jumpForce :: "real option"

record enemy_params =
  enemyX :: "real option"
  enemyY :: "real option"
  enemySize :: "real option"
  enemyDirection :: "real option"
  enemySpeed :: "real option"
  enemySpeedY :: "real option"
  enemyColor :: "string option"
  enemyBehavior :: "string option"
  enemyRange :: "real option"

record collectible_params =
  collX :: "real option"
  collY :: "real option"
  collSize :: "real option"
  collColor :: "string option"
  collValue :: "real option"
  collSound :: "string option"

record parameters =
  world :: "world_params option"
  player :: "player_params option"
  enemies :: "enemy_params list option"
  collectibles :: "collectible_params list option"

section \<open>Engine (engine.ts)\<close>

datatype console_msg = LevelDoesNotExist nat | LoadingLevel nat "string option" | LevelComplete

text \<open>
  The engine's state. \<^verbatim>\<open>renderer\<close> is the renderer's background colour (\<^term>\<open>None\<close> without
  a renderer), \<^verbatim>\<open>soundManager\<close> the ids handed to \<^verbatim>\<open>SoundManager.playSound\<close> so far
  (\<^term>\<open>None\<close> without a sound manager), \<open>console\<close> what was logged. \<open>pendingTimer\<close> is the
  callback that \<^verbatim>\<open>goToNextLevel\<close> leaves with \<^verbatim>\<open>setTimeout\<close>, \<open>restartListener\<close> the
  restart handler it registers. Of the scenes only the active one is kept.
\<close>

record engine =
  gameData :: parameters
  activeScene :: "scene option"
  renderer :: "string option"
  soundManager :: "string list option"
  currentLevelIndex :: nat
  score :: real
  collectedItems :: nat
  totalCollectibles :: nat
  gameCompleted :: bool
  levelTransitioning :: bool
  console :: "console_msg list"
  pendingTimer :: "nat option"
  restartListener :: bool

text \<open>\<^verbatim>\<open>params.world.levels[levelIndex]\<close>, absent when any link is missing or the index is beyond the list.\<close>

definition levelAt :: "parameters \<Rightarrow> nat \<Rightarrow> level_params option" where
  "levelAt params levelIndex =
     (case world params of
        None \<Rightarrow> None
      | Some w \<Rightarrow>
          (case levels w of
             None \<Rightarrow> None
           | Some ls \<Rightarrow> if levelIndex < length ls then Some (ls ! levelIndex) else None))"

text \<open>The sprite names \<^verbatim>\<open>`enemy_${index % 3}`\<close> and \<^verbatim>\<open>`collectible_${index % 3}`\<close>.\<close>

definition indexMod3 :: "nat \<Rightarrow> string" where
  "indexMod3 index = (if index mod 3 = 0 then ''0'' else if index mod 3 = 1 then ''1'' else ''2'')"

text \<open>
  The entities \<^verbatim>\<open>loadLevel\<close> builds. \<open>generated\<close> is the id the constructor makes up.
\<close>

definition makePlayer :: "string \<Rightarrow> player_params \<Rightarrow> entity" where
  "makePlayer generated pp =
     (setData ''facingLeft'' (Bool False) \<circ>
      setData ''sprite'' (Str ''player'') \<circ>
      setData ''jumpForce'' (Num (orNum (jumpForce pp) 10)) \<circ>
      setData ''maxSpeed'' (Num (orNum (playerSpeed pp) 5)))
       (Entity_new generated
          ((options (orNum (startX pp) 100) (orNum (startY pp) 100)
              (orNum (playerSize pp) 32) (orNum (playerSize pp) 32))
           \<lparr>optVelocityX := Some 0, optVelocityY := Some 0,
             optAcceleration := Some (orNum (playerAcceleration pp) 0.5),
             optColor := Some (orStr (playerColor pp) ''#ffffff''),
             optSolid := Some True, optTags := Some [''player'']\<rparr>))"

definition makeEnemy :: "string \<Rightarrow> nat \<Rightarrow> enemy_params \<Rightarrow> entity" where
  "makeEnemy generated index en =
     (setData ''speed'' (Num (orNum (enemySpeed en) 2)) \<circ>
      setData ''range'' (Num (orNum (enemyRange en) 100)) \<circ>
      setData ''direction'' (Num (orNum (enemyDirection en) 1)) \<circ>
      setData ''startX'' (numVal (enemyX en)) \<circ>
      setData ''behavior'' (Str (orStr (enemyBehavior en) ''patrol'')) \<circ>
      setData ''sprite'' (Str (''enemy_'' @ indexMod3 index)))
       (Entity_new generated
          ((options (orNum (enemyX en) (200 + real index * 100)) (orNum (enemyY en) 100)
              (orNum (enemySize en) 32) (orNum (enemySize en) 32))
           \<lparr>optVelocityX := map_option (\<lambda>d. d * orNum (enemySpeed en) 2) (enemyDirection en),
             optVelocityY := Some (orNum (enemySpeedY en) 0),
             optColor := Some (orStr (enemyColor en) ''#ff0000''),
             optSolid := Some True, optTags := Some [''enemy'']\<rparr>))"

definition makeCollectible :: "string \<Rightarrow> nat \<Rightarrow> collectible_params \<Rightarrow> entity" where
  "makeCollectible generated index co =
     (setData ''sound'' (Str (orStr (collSound co) ''collect'')) \<circ>
      setData ''value'' (Num (orNum (collValue co) 10)) \<circ>
      setData ''sprite'' (Str (''collectible_'' @ indexMod3 index)))
       (Entity_new generated
          ((options (orNum (collX co) (150 + real index * 70)) (orNum (collY co) 150)
              (orNum (collSize co) 24) (orNum (collSize co) 24))
           \<lparr>optColor := Some (orStr (collColor co) ''#ffff00''),
             optSolid := Some True, optTags := Some [''collectible'', ''platform'']\<rparr>))"

definition makePlatform :: "string \<Rightarrow> nat \<Rightarrow> platform_params \<Rightarrow> entity" where
  "makePlatform generated index pf =
     ((if platType pf = Some ''temporary''
       then setData ''disappearDuration'' (Num (orNum (disappearDuration pf) 1)) \<circ>
            setData ''disappearTime'' (Num 0) \<circ>
            setData ''temporary'' (Bool True)
       else id) \<circ>
      (if movingPlatform pf
       then setData ''movePhase'' (Num 0) \<circ>
            setData ''startY'' (numVal (platY pf)) \<circ>
            setData ''startX'' (numVal (platX pf)) \<circ>
            setData ''moveDirection'' (Str (orStr (moveDirection pf) ''horizontal'')) \<circ>
            setData ''moveDistance'' (Num (orNum (moveDistance pf) 100)) \<circ>
            setData ''moveSpeed'' (Num (orNum (moveSpeed pf) 1)) \<circ>
            setData ''movingPlatform'' (Bool True)
       else id) \<circ>
      setData ''type'' (Str (orStr (platType pf) ''solid'')) \<circ>
      setData ''sprite'' (case platSprite pf of None \<Rightarrow> Null | Some sp \<Rightarrow> if sp = [] then Null else Str sp))
       (Entity_new generated
          ((options (orNum (platX pf) (100 + real index * 150)) (orNum (platY pf) 400)
              (orNum (platWidth pf) 100) (orNum (platHeight pf) 20))
           \<lparr>optColor := Some (orStr (platColor pf) ''#555555''),
             optSolid := Some True, optTags := Some [''platform'']\<rparr>))"

text \<open>
  Adding the entities of one list to the scene, in order: \<open>gen n\<close> is the id that the
  constructor generates for the \<open>n\<close>-th entity built during this load.
\<close>

fun addAll ::
  "(string \<Rightarrow> nat \<Rightarrow> 'a \<Rightarrow> entity) \<Rightarrow> (nat \<Rightarrow> string) \<Rightarrow> nat \<Rightarrow> nat \<Rightarrow> 'a list \<Rightarrow> scene \<Rightarrow> scene" where
  "addAll mk gen n index [] sc = sc"
| "addAll mk gen n index (p # ps) sc =
     addAll mk gen (Suc n) (Suc index) ps (addEntity sc (mk (gen n) index p))"

text \<open>
  \<^verbatim>\<open>GameEngine.loadLevel(levelIndex)\<close>. The scene is cleared first; the existence of the
  level is checked afterwards.
\<close>

definition loadLevel :: "(nat \<Rightarrow> string) \<Rightarrow> engine \<Rightarrow> nat \<Rightarrow> engine" where
  "loadLevel gen g levelIndex =
     (case activeScene g of
        None \<Rightarrow> g
      | Some sc0 \<Rightarrow>
          (let sc1 = clear sc0;
               params = gameData g
           in case levelAt params levelIndex of
                None \<Rightarrow>
                  g\<lparr>activeScene := Some sc1,
                    console := console g @ [LevelDoesNotExist levelIndex]\<rparr>
              | Some level \<Rightarrow>
                  (let sc2 = (case player params of
                                None \<Rightarrow> sc1
                              | Some pp \<Rightarrow> addEntity sc1 (makePlayer (gen 0) pp));
                       n2 = (case player params of None \<Rightarrow> 0 | Some pp \<Rightarrow> 1);
                       es = (case enemies params of None \<Rightarrow> [] | Some l \<Rightarrow> l);
                       sc3 = addAll makeEnemy gen n2 0 es sc2;
                       n3 = n2 + length es;
                       cs = (case collectibles params of None \<Rightarrow> [] | Some l \<Rightarrow> l);
                       total = (if cs \<noteq> [] then length cs else totalCollectibles g);
                       sc4 = addAll makeCollectible gen n3 0 cs sc3;
                       n4 = n3 + length cs;
                       ps = (case platforms level of None \<Rightarrow> [] | Some l \<Rightarrow> l);
                       sc5 = addAll makePlatform gen n4 0 ps sc4;
                       bg = (case background level of
                               None \<Rightarrow> renderer g
                             | Some c \<Rightarrow> if c = [] then renderer g
                                          else map_option (\<lambda>_. c) (renderer g))
                   in g\<lparr>activeScene := Some sc5, totalCollectibles := total, renderer := bg,
                        console := console g @ [LoadingLevel levelIndex (levelName level)]\<rparr>)))"

text \<open>\<^verbatim>\<open>initializeEntities\<close> and the two callbacks that \<^verbatim>\<open>goToNextLevel\<close> leaves behind.\<close>

definition initializeEntities :: "(nat \<Rightarrow> string) \<Rightarrow> engine \<Rightarrow> engine" where
  "initializeEntities gen g =
     (case activeScene g of
        None \<Rightarrow> g
      | Some sc \<Rightarrow>
          loadLevel gen
            (g\<lparr>currentLevelIndex := 0, score := 0, collectedItems := 0, totalCollectibles := 0,
               gameCompleted := False\<rparr>) 0)"

definition nextLevelTimer :: "(nat \<Rightarrow> string) \<Rightarrow> engine \<Rightarrow> engine" where
  "nextLevelTimer gen g =
     (case pendingTimer g of
        None \<Rightarrow> g
      | Some nextLevelIndex \<Rightarrow>
          (loadLevel gen (g\<lparr>pendingTimer := None, currentLevelIndex := nextLevelIndex\<rparr>)
             nextLevelIndex)
          \<lparr>levelTransitioning := False\<rparr>)"

definition restartHandler :: "(nat \<Rightarrow> string) \<Rightarrow> engine \<Rightarrow> engine" where
  "restartHandler gen g =
     (if \<not> restartListener g then g
      else (loadLevel gen
              (g\<lparr>restartListener := False, currentLevelIndex := 0, score := 0,
                 collectedItems := 0, gameCompleted := False\<rparr>) 0)
           \<lparr>levelTransitioning := False\<rparr>)"

section \<open>Engine: gameplay rules\<close>

text \<open>
  A method that can throw returns how it ended together with the state it left: an
  exception does not undo the writes made before it.
\<close>

datatype outcome = Returned | Threw string

text \<open>Sequencing: what follows a statement that threw is not run.\<close>

definition andThen :: "outcome \<times> engine \<Rightarrow> (engine \<Rightarrow> outcome \<times> engine) \<Rightarrow> outcome \<times> engine" where
  "andThen r f = (case r of (Returned, g) \<Rightarrow> f g | (Threw m, g) \<Rightarrow> (Threw m, g))"

text \<open>\<^verbatim>\<open>array.forEach\<close> over an array of references, stopping at an exception.\<close>

fun forEachKey :: "(engine \<Rightarrow> string \<Rightarrow> outcome \<times> engine) \<Rightarrow> string list \<Rightarrow> engine \<Rightarrow> outcome \<times> engine" where
  "forEachKey f [] g = (Returned, g)"
| "forEachKey f (k # ks) g = andThen (f g k) (forEachKey f ks)"

text \<open>\<^verbatim>\<open>GameEngine.checkCollision(a, b)\<close>, the engine's own overlap test.\<close>

definition checkCollision :: "entity \<Rightarrow> entity \<Rightarrow> bool" where
  "checkCollision a b =
     (xpos a < xpos b + width b \<and> xpos a + width a > xpos b \<and>
      ypos a < ypos b + height b \<and> ypos a + height a > ypos b)"

definition playSound :: "engine \<Rightarrow> string \<Rightarrow> engine" where
  "playSound g sid =
     (case soundManager g of
        None \<Rightarrow> g
      | Some played \<Rightarrow> g\<lparr>soundManager := Some (played @ [sid])\<rparr>)"

text \<open>A write to a field of the entity that the active scene holds under a key.\<close>

definition modifyEntity :: "string \<Rightarrow> (entity \<Rightarrow> entity) \<Rightarrow> engine \<Rightarrow> engine" where
  "modifyEntity k f g =
     (case activeScene g of
        None \<Rightarrow> g
      | Some sc \<Rightarrow> g\<lparr>activeScene := Some (sc\<lparr>entities := AList.map_entry k f (entities sc)\<rparr>)\<rparr>)"

definition entityAt :: "engine \<Rightarrow> string \<Rightarrow> entity option" where
  "entityAt g k = (case activeScene g of None \<Rightarrow> None | Some sc \<Rightarrow> map_of (entities sc) k)"

text \<open>
  \<^verbatim>\<open>GameEngine.checkLevelCompletion()\<close>. Reading \<^verbatim>\<open>world.levels[currentLevelIndex]\<close> and
  then \<^verbatim>\<open>level.requiredCollectibles\<close> throws a \<^verbatim>\<open>TypeError\<close> when a link is missing.
\<close>

definition checkLevelCompletion :: "engine \<Rightarrow> outcome \<times> engine" where
  "checkLevelCompletion g =
     (let collectibles = (case activeScene g of
                            None \<Rightarrow> []
                          | Some sc \<Rightarrow> getEntitiesByTag sc ''collectible'')
      in case levelAt (gameData g) (currentLevelIndex g) of
           None \<Rightarrow> (Threw ''TypeError'', g)
         | Some level \<Rightarrow>
             (let required = orNum (requiredCollectibles level) (real (length collectibles))
              in if real (collectedItems g) \<ge> required
                 then (Returned, playSound (g\<lparr>console := console g @ [LevelComplete]\<rparr>) ''collect'')
                 else (Returned, g)))"

text \<open>
  \<^verbatim>\<open>GameEngine.goToNextLevel()\<close>. The overlay it draws is not part of the state; the
  delayed load and the restart handler are left as pending callbacks.
\<close>

definition goToNextLevel :: "engine \<Rightarrow> outcome \<times> engine" where
  "goToNextLevel g =
     (if levelTransitioning g then (Returned, g)
      else
        (let g1 = g\<lparr>levelTransitioning := True\<rparr>;
             nextLevelIndex = currentLevelIndex g + 1
         in case world (gameData g) of
              None \<Rightarrow> (Threw ''TypeError'', g1)
            | Some w \<Rightarrow>
                (case levels w of
                   None \<Rightarrow> (Threw ''TypeError'', g1)
                 | Some ls \<Rightarrow>
                     if nextLevelIndex < length ls
                     then (Returned, g1\<lparr>pendingTimer := Some nextLevelIndex\<rparr>)
                     else (Returned, g1\<lparr>gameCompleted := True, restartListener := True\<rparr>))))"

text \<open>
  The rules of \<^verbatim>\<open>GameEngine.update\<close> that follow the input handling, for the player held
  under key \<open>pk\<close>: the body of the loop over the collectibles, the body of the loop over the
  enemies, the fall below the world and the level exit. Values read from the data bag:
  \<^verbatim>\<open>getData('value') || 10\<close> for a number, \<^verbatim>\<open>getData('sound')\<close> for a string.
\<close>

definition valueOr10 :: "entity \<Rightarrow> real" where
  "valueOr10 c = (case getData c ''value'' of Num v \<Rightarrow> if v = 0 then 10 else v | _ \<Rightarrow> 10)"

definition collectibleRule :: "string \<Rightarrow> engine \<Rightarrow> string \<Rightarrow> outcome \<times> engine" where
  "collectibleRule pk g ck =
     (case (entityAt g pk, entityAt g ck) of
        (Some pl, Some collectible) \<Rightarrow>
          if active collectible \<and> checkCollision pl collectible then
            (let g1 = modifyEntity ck (\<lambda>c. c\<lparr>active := False\<rparr>) g;
                 g2 = modifyEntity ck (\<lambda>c. c\<lparr>visible := False\<rparr>) g1;
                 g3 = g2\<lparr>score := score g2 + valueOr10 collectible\<rparr>;
                 g4 = g3\<lparr>collectedItems := collectedItems g3 + 1\<rparr>;
                 g5 = (case getData collectible ''sound'' of
                         Str soundId \<Rightarrow> if soundId = [] then g4 else playSound g4 soundId
                       | _ \<Rightarrow> g4)
             in checkLevelCompletion g5)
          else (Returned, g)
      | _ \<Rightarrow> (Returned, g))"

text \<open>
  The reset of the player reads \<^verbatim>\<open>gameData.parameters.player.startX\<close>, which throws when the
  parameters declare no player.
\<close>

definition resetPlayer :: "string \<Rightarrow> engine \<Rightarrow> outcome \<times> engine" where
  "resetPlayer pk g =
     (case player (gameData g) of
        None \<Rightarrow> (Threw ''TypeError'', g)
      | Some pp \<Rightarrow>
          (let g1 = modifyEntity pk (\<lambda>p. p\<lparr>xpos := orNum (startX pp) 100\<rparr>) g;
               g2 = modifyEntity pk (\<lambda>p. p\<lparr>ypos := orNum (startY pp) 100\<rparr>) g1;
               g3 = modifyEntity pk (\<lambda>p. p\<lparr>velocityX := 0\<rparr>) g2;
               g4 = modifyEntity pk (\<lambda>p. p\<lparr>velocityY := 0\<rparr>) g3
           in (Returned, playSound g4 ''hit'')))"

definition enemyRule :: "string \<Rightarrow> engine \<Rightarrow> string \<Rightarrow> outcome \<times> engine" where
  "enemyRule pk g ek =
     (case (entityAt g pk, entityAt g ek) of
        (Some pl, Some enemy) \<Rightarrow>
          if active enemy \<and> checkCollision pl enemy then
            (if velocityY pl > 0 \<and> ypos pl + height pl < ypos enemy + height enemy / 2 then
               (let g1 = modifyEntity ek (\<lambda>e. e\<lparr>active := False\<rparr>) g;
                    g2 = modifyEntity ek (\<lambda>e. e\<lparr>visible := False\<rparr>) g1;
                    g3 = modifyEntity pk (\<lambda>p. p\<lparr>velocityY := - 7\<rparr>) g2;
                    g4 = g3\<lparr>score := score g3 + 50\<rparr>
                in (Returned, playSound g4 ''hit''))
             else resetPlayer pk g)
          else (Returned, g)
      | _ \<Rightarrow> (Returned, g))"

definition fallRule :: "string \<Rightarrow> engine \<Rightarrow> outcome \<times> engine" where
  "fallRule pk g =
     (case entityAt g pk of
        None \<Rightarrow> (Returned, g)
      | Some pl \<Rightarrow>
          (case world (gameData g) of
             None \<Rightarrow> (Threw ''TypeError'', g)
           | Some w \<Rightarrow>
               (case worldHeight w of
                  None \<Rightarrow> (Returned, g)
                | Some h \<Rightarrow> if ypos pl > h then resetPlayer pk g else (Returned, g))))"

definition exitRule :: "string \<Rightarrow> engine \<Rightarrow> outcome \<times> engine" where
  "exitRule pk g =
     (case entityAt g pk of
        None \<Rightarrow> (Returned, g)
      | Some pl \<Rightarrow>
          (case world (gameData g) of
             None \<Rightarrow> (Threw ''TypeError'', g)
           | Some w \<Rightarrow>
               (case worldWidth w of
                  None \<Rightarrow> (Returned, g)
                | Some wd \<Rightarrow>
                    if xpos pl > wd - width pl * 2 then goToNextLevel g else (Returned, g))))"

definition playerRules :: "engine \<Rightarrow> outcome \<times> engine" where
  "playerRules g =
     (case activeScene g of
        None \<Rightarrow> (Returned, g)
      | Some sc \<Rightarrow>
          (case getEntitiesByTag sc ''player'' of
             [] \<Rightarrow> (Returned, g)
           | pk # _ \<Rightarrow>
               andThen (forEachKey (collectibleRule pk) (getEntitiesByTag sc ''collectible'') g)
                 (\<lambda>g1. andThen
                    (forEachKey (enemyRule pk)
                       (case activeScene g1 of
                          None \<Rightarrow> []
                        | Some sc1 \<Rightarrow> getEntitiesByTag sc1 ''enemy'') g1)
                    (\<lambda>g2. andThen (fallRule pk g2) (exitRule pk)))))"

text \<open>
  The guard that the loop over the collectibles and the loop over the enemies share,
  \<^verbatim>\<open>x.active && this.checkCollision(player, x)\<close>, for the entities held under two keys; and
  the player after the four assignments of a reset.
\<close>

definition contact :: "engine \<Rightarrow> string \<Rightarrow> string \<Rightarrow> bool" where
  "contact g pk k =
     (case (entityAt g pk, entityAt g k) of
        (Some pl, Some e) \<Rightarrow> active e \<and> checkCollision pl e
      | _ \<Rightarrow> False)"

definition spawned :: "player_params \<Rightarrow> entity \<Rightarrow> entity" where
  "spawned pp p =
     p\<lparr>xpos := orNum (startX pp) 100, ypos := orNum (startY pp) 100, velocityX := 0, velocityY := 0\<rparr>"

text \<open>
  The step \<^verbatim>\<open>this.activeScene.update(deltaTime)\<close> of \<^verbatim>\<open>GameEngine.update\<close>, which comes
  before the rules; \<^term>\<open>None\<close> when the update of the scene does not return.
\<close>

definition sceneStep :: "behavior_table \<Rightarrow> real \<Rightarrow> engine \<Rightarrow> engine option" where
  "sceneStep bt dt g =
     (case activeScene g of
        None \<Rightarrow> Some g
      | Some sc \<Rightarrow> map_option (\<lambda>sc1. g\<lparr>activeScene := Some sc1\<rparr>) (Scene_update bt sc dt))"

text \<open>The keys of the entities in the active scene.\<close>

definition entityKeys :: "engine \<Rightarrow> string list" where
  "entityKeys g = (case activeScene g of None \<Rightarrow> [] | Some sc \<Rightarrow> map fst (entities sc))"

section \<open>Asset manager (asset.ts)\<close>























section \<open>Example scenes, games and networks\<close>

text \<open>Two concrete entities: a falling player and a thin platform under its feet.\<close>

definition blankEntity :: entity where
  "blankEntity =
     \<lparr>ident = ''e'', xpos = 0, ypos = 0, width = 0, height = 0, velocityX = 0, velocityY = 0,
      acceleration = 0, gravity = None, friction = None, color = ''#fff'', solid = True,
      bouncy = False, bounceCoefficient = None, mass = 1, tags = [], active = True,
      visible = True, onGround = False, behaviors = [], data = []\<rparr>"

definition fallingPlayer :: entity where
  "fallingPlayer =
     blankEntity\<lparr>ident := ''p'', xpos := 100, ypos := 100, width := 32, height := 32,
       velocityY := 5, tags := [''player'']\<rparr>"

definition thinPlatform :: entity where
  "thinPlatform =
     blankEntity\<lparr>ident := ''f'', xpos := 90, ypos := 130, width := 100, height := 20,
       tags := [''platform'']\<rparr>"

definition sidePlayer :: entity where
  "sidePlayer =
     blankEntity\<lparr>ident := ''p'', xpos := 62, ypos := 120, width := 32, height := 32,
       velocityY := 5, tags := [''player'']\<rparr>"

text \<open>
  A scene whose first entity, on update, spawns a bullet, then a shell under the bullet's id,
  and removes the crate; and one whose only entity adds a spark and removes it again in the
  same hook.
\<close>

definition bullet :: entity where
  "bullet = blankEntity\<lparr>ident := ''bullet'', xpos := 10, ypos := 10, width := 4, height := 4\<rparr>"

definition shell :: entity where
  "shell = bullet\<lparr>xpos := 50\<rparr>"

definition spark :: entity where
  "spark = blankEntity\<lparr>ident := ''spark'', xpos := 300, ypos := 10, width := 2, height := 2\<rparr>"

definition demoTable :: behavior_table where
  "demoTable n =
     (if n = ''spawn''
      then \<lparr>update_hook =
              Some (\<lambda>view e dt. (e, [AddEntity bullet, AddEntity shell, RemoveEntity ''crate'']))\<rparr>
      else if n = ''flicker''
      then \<lparr>update_hook = Some (\<lambda>view e dt. (e, [AddEntity spark, RemoveEntity ''spark'']))\<rparr>
      else \<lparr>update_hook = None\<rparr>)"

definition spawnScene :: scene where
  "spawnScene =
     addEntity
       (addEntity (Scene_new ''default'' None None None)
          (blankEntity\<lparr>ident := ''spawner'', width := 32, height := 32, behaviors := [''spawn'']\<rparr>))
       (blankEntity\<lparr>ident := ''crate'', xpos := 200, width := 16, height := 16\<rparr>)"

definition flickerScene :: scene where
  "flickerScene =
     addEntity (Scene_new ''default'' None None None)
       (blankEntity\<lparr>ident := ''lamp'', width := 8, height := 8, behaviors := [''flicker'']\<rparr>)"

text \<open>
  A player that falls for one frame before it reaches the platform below it, alone in a
  scene with that platform; and the falling player alone in a scene.
\<close>

definition hoverPlayer :: entity where
  "hoverPlayer = fallingPlayer\<lparr>ypos := 95\<rparr>"

definition landScene :: scene where
  "landScene =
     addEntity (addEntity (Scene_new ''default'' None None None) hoverPlayer) thinPlatform"

definition loneScene :: scene where
  "loneScene = addEntity (Scene_new ''default'' None None None) fallingPlayer"

text \<open>
  A game of two levels with one platform each, a player, an enemy and a collectible that
  the player touches where it spawns; the engine after \<^verbatim>\<open>initialize\<close>.
\<close>

definition demoGen :: "nat \<Rightarrow> string" where
  "demoGen n = ''entity_'' @ replicate n CHR ''i''"

definition demoPlatform :: platform_params where
  "demoPlatform =
     \<lparr>platX = Some 50, platY = Some 400, platWidth = Some 700, platHeight = Some 20,
      platColor = None, platSprite = None, platType = None, movingPlatform = False,
      moveSpeed = None, moveDistance = None, moveDirection = None, disappearDuration = None\<rparr>"

definition demoLevels :: "level_params list" where
  "demoLevels =
     [\<lparr>levelName = Some ''One'', platforms = Some [demoPlatform], background = None,
       requiredCollectibles = Some 1\<rparr>,
      \<lparr>levelName = Some ''Two'', platforms = Some [demoPlatform], background = None,
       requiredCollectibles = Some 1\<rparr>]"

definition demoWorld :: world_params where
  "demoWorld = \<lparr>worldWidth = Some 800, worldHeight = Some 600, levels = Some demoLevels\<rparr>"

definition demoPlayer :: player_params where
  "demoPlayer =
     \<lparr>startX = Some 100, startY = Some 100, playerSize = None, playerAcceleration = None,
      playerColor = None, playerSpeed = None, jumpForce = None\<rparr>"

definition demoParameters :: parameters where
  "demoParameters =
     \<lparr>world = Some demoWorld, player = Some demoPlayer,
      enemies = Some [\<lparr>enemyX = Some 300, enemyY = Some 368, enemySize = None,
                       enemyDirection = Some 1, enemySpeed = None, enemySpeedY = None,
                       enemyColor = None, enemyBehavior = None, enemyRange = None\<rparr>],
      collectibles = Some [\<lparr>collX = Some 105, collY = Some 105, collSize = None, collColor = None,
                            collValue = Some 10, collSound = None\<rparr>]\<rparr>"

definition newEngine :: engine where
  "newEngine =
     \<lparr>gameData = demoParameters, activeScene = Some (Scene_new ''default'' None None None),
      renderer = Some ''#000033'', soundManager = Some [], currentLevelIndex = 0, score = 0,
      collectedItems = 0, totalCollectibles = 0, gameCompleted = False,
      levelTransitioning = False, console = [], pendingTimer = None, restartListener = False\<rparr>"

definition levelOne :: engine where
  "levelOne = initializeEntities demoGen newEngine"

text \<open>
  The play that leads from level one to level two: the rules let the player pick the
  collectible up, the player is then at the right edge when the exit rule runs, and the
  timer left by \<^verbatim>\<open>goToNextLevel\<close> loads the next level.
\<close>

definition afterPickup :: engine where
  "afterPickup = snd (playerRules levelOne)"

definition rightEdge :: engine where
  "rightEdge = modifyEntity ''entity_'' (\<lambda>p. p\<lparr>xpos := 750\<rparr>) afterPickup"

definition atExit :: engine where
  "atExit = snd (exitRule ''entity_'' rightEdge)"

text \<open>
  A game without enemies whose player spawns just above the platform and below the
  collectible: in the first frame the scene update lands the player on the platform, where
  it overlaps the collectible, and the rules pick the collectible up. No key is held, the
  player stands still and no entity has a behaviour, so the input handling between the two
  steps changes nothing.
\<close>

definition idleTable :: behavior_table where
  "idleTable n = \<lparr>update_hook = None\<rparr>"

definition shelfParameters :: parameters where
  "shelfParameters =
     demoParameters\<lparr>player := Some (demoPlayer\<lparr>startY := Some 385\<rparr>), enemies := None,
       collectibles := Some [\<lparr>collX = Some 130, collY = Some 360, collSize = None, collColor = None,
                             collValue = Some 10, collSound = None\<rparr>]\<rparr>"

definition shelfStart :: engine where
  "shelfStart = initializeEntities demoGen (newEngine\<lparr>gameData := shelfParameters\<rparr>)"

definition shelfLanded :: engine where
  "shelfLanded =
     (case sceneStep idleTable (1 / 60) shelfStart of Some g \<Rightarrow> g | None \<Rightarrow> shelfStart)"

definition shelfPlayed :: engine where
  "shelfPlayed = snd (playerRules shelfLanded)"

text \<open>
  Level one with the player falling onto the top half of the enemy, and with the player
  running into the enemy's side.
\<close>

definition stompEngine :: engine where
  "stompEngine =
     modifyEntity ''entity_'' (\<lambda>p. p\<lparr>xpos := 300, ypos := 340, velocityY := 5\<rparr>) levelOne"

definition bumpEngine :: engine where
  "bumpEngine =
     modifyEntity ''entity_'' (\<lambda>p. p\<lparr>xpos := 280, ypos := 370, velocityY := 5\<rparr>) levelOne"

text \<open>
  The same game with a second enemy ten units to the right of the first, the player
  falling onto the top half of both; and the active scene of an engine.
\<close>

definition twinParameters :: parameters where
  "twinParameters =
     demoParameters
       \<lparr>enemies := Some [\<lparr>enemyX = Some 300, enemyY = Some 368, enemySize = None,
                          enemyDirection = Some 1, enemySpeed = None, enemySpeedY = None,
                          enemyColor = None, enemyBehavior = None, enemyRange = None\<rparr>,
                         \<lparr>enemyX = Some 310, enemyY = Some 368, enemySize = None,
                          enemyDirection = Some 1, enemySpeed = None, enemySpeedY = None,
                          enemyColor = None, enemyBehavior = None, enemyRange = None\<rparr>]\<rparr>"

definition twinEngine :: engine where
  "twinEngine =
     modifyEntity ''entity_'' (\<lambda>p. p\<lparr>xpos := 300, ypos := 340, velocityY := 5\<rparr>)
       (initializeEntities demoGen (newEngine\<lparr>gameData := twinParameters\<rparr>))"

definition sceneOf :: "engine \<Rightarrow> scene" where
  "sceneOf g = (case activeScene g of Some sc \<Rightarrow> sc | None \<Rightarrow> Scene_new ''default'' None None None)"








section \<open>Physics: collision direction and resolution\<close>

lemma detectCollision_positive_overlap:
  "collided (detectCollision a b) \<Longrightarrow> \<exists>m. overlap (detectCollision a b) = Some m \<and> 0 < m"
  by (auto simp: detectCollision_def Let_def boundsApart_def minOverlap_def overlapLeft_def
      overlapRight_def overlapTop_def overlapBottom_def split: if_splits)

lemma detectCollision_direction_collided:
  "direction (detectCollision a b) = Some d \<Longrightarrow> collided (detectCollision a b)"
  by (auto simp: detectCollision_def Let_def split: if_splits)

text \<open>
  C4. A top hit reported by \<^verbatim>\<open>detectCollision\<close> for solid \<open>a\<close> and \<open>b\<close>: when \<open>a\<close> moves
  downward or is vertically at rest, \<^verbatim>\<open>resolveCollision\<close> puts \<open>a\<close> on top of \<open>b\<close>
  (\<open>a.y = b.y - a.height\<close>), zeroes its vertical velocity and sets \<open>onGround\<close>; when \<open>a\<close> moves
  upward, \<open>a\<close> is returned as it was.
\<close>

theorem resolveCollision_top:
  assumes "solid a" and "solid b"
    and "r = detectCollision a b"
    and "direction r = Some DTop"
  shows "(velocityY a \<ge> 0 \<longrightarrow>
            ypos (resolveCollision ph a b r) = ypos b - height a \<and>
            velocityY (resolveCollision ph a b r) = 0 \<and>
            onGround (resolveCollision ph a b r) \<and>
            xpos (resolveCollision ph a b r) = xpos a \<and>
            velocityX (resolveCollision ph a b r) = velocityX a) \<and>
         (velocityY a < 0 \<longrightarrow> resolveCollision ph a b r = a)"
proof -
  from assms have c: "collided r"
    using detectCollision_direction_collided by blast
  with assms obtain m where m: "overlap r = Some m" "0 < m"
    using detectCollision_positive_overlap by blast
  from c m assms(4) show ?thesis
    by (simp add: resolveCollision_def)
qed

theorem resolveCollision_top_witness:
  "solid fallingPlayer \<and> solid thinPlatform \<and>
   direction (detectCollision fallingPlayer thinPlatform) = Some DTop \<and>
   velocityY fallingPlayer \<ge> 0 \<and>
   ypos (resolveCollision (Physics_new None None None None) fallingPlayer thinPlatform
           (detectCollision fallingPlayer thinPlatform)) = 98 \<and>
   velocityY (resolveCollision (Physics_new None None None None) fallingPlayer thinPlatform
           (detectCollision fallingPlayer thinPlatform)) = 0 \<and>
   onGround (resolveCollision (Physics_new None None None None) fallingPlayer thinPlatform
           (detectCollision fallingPlayer thinPlatform))"
proof -
  have s: "solid fallingPlayer" "solid thinPlatform"
    by (simp_all add: fallingPlayer_def thinPlatform_def blankEntity_def)
  have d: "direction (detectCollision fallingPlayer thinPlatform) = Some DTop"
    by (simp add: detectCollision_def boundsApart_def hasTag_def overlapTop_def Let_def
        fallingPlayer_def thinPlatform_def blankEntity_def)
  have v: "velocityY fallingPlayer \<ge> 0" "ypos thinPlatform - height fallingPlayer = 98"
    by (simp_all add: fallingPlayer_def thinPlatform_def blankEntity_def)
  from resolveCollision_top [OF s refl d, of "Physics_new None None None None"] s d v
  show ?thesis
    by simp
qed

text \<open>
  C5. For overlapping solid \<open>a\<close> and \<open>b\<close>: when \<open>b\<close> is tagged \<^verbatim>\<open>platform\<close>, \<open>a\<close> moves downward
  and the top overlap (\<open>a\<close>'s bottom edge minus \<open>b\<close>'s top edge) is below half of \<open>a\<close>'s height,
  \<^verbatim>\<open>detectCollision\<close> reports \<^verbatim>\<open>top\<close>, whatever the other penetration depths are; in every
  other case the reported direction is one whose penetration depth is the minimum of the four.
\<close>

theorem detectCollision_direction:
  assumes "solid a" and "solid b" and "\<not> boundsApart a b"
  shows "collided (detectCollision a b) \<and>
         (if hasTag b ''platform'' \<and> velocityY a > 0 \<and> overlapTop a b < height a / 2
          then direction (detectCollision a b) = Some DTop
          else \<exists>d. direction (detectCollision a b) = Some d \<and> overlapOf d a b = minOverlap a b)"
proof -
  have "minOverlap a b = overlapLeft a b \<or> minOverlap a b = overlapRight a b \<or>
        minOverlap a b = overlapTop a b \<or> minOverlap a b = overlapBottom a b"
    by (simp add: minOverlap_def min_def)
  with assms show ?thesis
    by (auto simp: detectCollision_def Let_def)
qed

theorem detectCollision_direction_witness:
  "solid fallingPlayer \<and> solid thinPlatform \<and> \<not> boundsApart fallingPlayer thinPlatform \<and>
   overlapLeft fallingPlayer thinPlatform = 42 \<and> overlapTop fallingPlayer thinPlatform = 2 \<and>
   direction (detectCollision fallingPlayer thinPlatform) = Some DTop \<and>
   solid sidePlayer \<and> \<not> boundsApart sidePlayer thinPlatform \<and>
   overlapLeft sidePlayer thinPlatform = 4 \<and> overlapTop sidePlayer thinPlatform = 22 \<and>
   direction (detectCollision sidePlayer thinPlatform) = Some DLeft"
proof -
  have s: "solid fallingPlayer" "solid thinPlatform" "\<not> boundsApart fallingPlayer thinPlatform"
      "solid sidePlayer" "\<not> boundsApart sidePlayer thinPlatform"
    by (simp_all add: boundsApart_def fallingPlayer_def sidePlayer_def thinPlatform_def blankEntity_def)
  have o: "overlapLeft fallingPlayer thinPlatform = 42" "overlapTop fallingPlayer thinPlatform = 2"
      "overlapLeft sidePlayer thinPlatform = 4" "overlapTop sidePlayer thinPlatform = 22"
      "overlapRight sidePlayer thinPlatform = 128" "overlapBottom sidePlayer thinPlatform = 30"
    by (simp_all add: overlapLeft_def overlapTop_def overlapRight_def overlapBottom_def
        fallingPlayer_def sidePlayer_def thinPlatform_def blankEntity_def)
  have t: "hasTag thinPlatform ''platform''" "velocityY fallingPlayer > 0" "height fallingPlayer / 2 = 16"
      "velocityY sidePlayer > 0" "height sidePlayer / 2 = 16"
    by (simp_all add: hasTag_def fallingPlayer_def sidePlayer_def thinPlatform_def blankEntity_def)
  have m: "minOverlap sidePlayer thinPlatform = 4"
    by (simp add: minOverlap_def o)
  from detectCollision_direction [OF s(1,2,3)] o t
  have 1: "direction (detectCollision fallingPlayer thinPlatform) = Some DTop"
    by simp
  from detectCollision_direction [OF s(4,2,5)] o t m
  obtain d where d: "direction (detectCollision sidePlayer thinPlatform) = Some d"
      "overlapOf d sidePlayer thinPlatform = 4"
    by auto
  from d(2) o have "d = DLeft"
    by (cases d) simp_all
  with d 1 s o show ?thesis
    by simp
qed

section \<open>Scene: structural mutation during an update pass\<close>

lemma applyCall_updating:
  "isUpdating s \<Longrightarrow>
     isUpdating (applyCall s c) \<and> entities (applyCall s c) = entities s \<and>
     scenePhysics (applyCall s c) = scenePhysics s"
  by (cases c) (simp_all add: addEntity_def removeEntity_def)

lemma foldl_applyCall_updating:
  "isUpdating s \<Longrightarrow>
     isUpdating (foldl applyCall s cs) \<and> entities (foldl applyCall s cs) = entities s \<and>
     scenePhysics (foldl applyCall s cs) = scenePhysics s"
  by (induction cs arbitrary: s) (simp_all add: applyCall_updating)

lemma visitEntity_updating:
  assumes "isUpdating (fst st)" and "i < length (entities (fst st))"
  shows "isUpdating (fst (visitEntity bt dt i st)) \<and>
         map fst (entities (fst (visitEntity bt dt i st))) = map fst (entities (fst st)) \<and>
         scenePhysics (fst (visitEntity bt dt i st)) = scenePhysics (fst st)"
proof -
  obtain s ph pl where st: "st = (s, ph, pl)" by (cases st)
  obtain k e where ke: "entities s ! i = (k, e)" by (cases "entities s ! i")
  obtain e1 calls where eu: "Entity_update bt (entities s) e dt = (e1, calls)"
    by (cases "Entity_update bt (entities s) e dt")
  let ?s1 = "s\<lparr>entities := (entities s)[i := (k, e1)]\<rparr>"
  have u: "isUpdating ?s1" using assms st by simp
  have "(map fst (entities s))[i := k] = map fst (entities s)"
    using assms st ke by (intro list_update_same_conv [THEN iffD2]) simp_all
  then have k: "map fst (entities ?s1) = map fst (entities s)"
    by (simp add: map_update)
  from foldl_applyCall_updating [OF u, of calls] k assms st ke eu show ?thesis
    by (simp add: visitEntity_def Let_def)
qed

lemma collectLoop_eq:
  assumes "isUpdating (fst st)" and "i \<le> length (entities (fst st))"
  shows "collectLoop bt dt i st =
           Some (foldl (\<lambda>st j. visitEntity bt dt j st) st [i..<length (entities (fst st))])"
  using assms
proof (induction "length (entities (fst st)) - i" arbitrary: i st)
  case 0
  then show ?case by (simp add: collectLoop.simps)
next
  case (Suc n)
  then have lt: "i < length (entities (fst st))" by simp
  let ?st = "visitEntity bt dt i st"
  from visitEntity_updating [OF Suc.prems(1) lt, of bt dt]
  have v: "isUpdating (fst ?st)" "map fst (entities (fst ?st)) = map fst (entities (fst st))"
    by simp_all
  from v(2) have len: "length (entities (fst ?st)) = length (entities (fst st))"
    by (metis length_map)
  have "collectLoop bt dt (Suc i) ?st =
          Some (foldl (\<lambda>st j. visitEntity bt dt j st) ?st [Suc i..<length (entities (fst ?st))])"
    using Suc.hyps(1) [of ?st "Suc i"] Suc.hyps(2) v(1) len lt by simp
  with lt len show ?case
    by (subst collectLoop.simps) (simp add: upt_conv_Cons)
qed

declare drainAdds.simps [simp del] drainRemoves.simps [simp del]

lemma set_butlast_last: "xs \<noteq> [] \<Longrightarrow> set xs = insert (last xs) (set (butlast xs))"
  by (metis append_butlast_last_id list.simps(15) rotate1.simps(2) set_rotate1)

lemma keys_delete: "fst ` set (AList.delete k al) = fst ` set al - {k}"
proof -
  have "set (map fst (AList.delete k al)) = set (map fst al) - {k}"
    by (simp only: delete_keys set_removeAll)
  then show ?thesis by simp
qed

lemma drainAdds_result:
  "entitiesToAdd (drainAdds s) = [] \<and>
   entitiesToRemove (drainAdds s) = entitiesToRemove s \<and>
   isUpdating (drainAdds s) = isUpdating s \<and>
   fst ` set (entities (drainAdds s)) = fst ` set (entities s) \<union> ident ` set (entitiesToAdd s)"
proof (induction s rule: drainAdds.induct)
  case (1 s)
  show ?case
  proof (cases "entitiesToAdd s = []")
    case True
    then show ?thesis by (subst (1 2 3 4) drainAdds.simps) simp
  next
    case False
    let ?e = "last (entitiesToAdd s)"
    let ?s1 = "s\<lparr>entitiesToAdd := butlast (entitiesToAdd s)\<rparr>"
    let ?s2 = "?s1\<lparr>entities := AList.update (ident ?e) ?e (entities ?s1)\<rparr>"
    have d: "drainAdds s = drainAdds ?s2"
      using False by (subst drainAdds.simps) (simp add: Let_def)
    have i: "ident ` set (entitiesToAdd s) =
               insert (ident ?e) (ident ` set (butlast (entitiesToAdd s)))"
      by (subst set_butlast_last [OF False]) simp
    have k: "fst ` set (entities ?s2) = insert (ident ?e) (fst ` set (entities s))"
      by (simp add: dom_update)
    from 1 [OF False refl refl] have
      "entitiesToAdd (drainAdds ?s2) = [] \<and>
       entitiesToRemove (drainAdds ?s2) = entitiesToRemove s \<and>
       isUpdating (drainAdds ?s2) = isUpdating s \<and>
       fst ` set (entities (drainAdds ?s2)) =
         fst ` set (entities ?s2) \<union> ident ` set (butlast (entitiesToAdd s))"
      by simp
    then show ?thesis
      unfolding d i k by simp
  qed
qed

lemma drainRemoves_result:
  "entitiesToRemove (drainRemoves s) = [] \<and>
   entitiesToAdd (drainRemoves s) = entitiesToAdd s \<and>
   isUpdating (drainRemoves s) = isUpdating s \<and>
   fst ` set (entities (drainRemoves s)) =
     fst ` set (entities s) - (set (entitiesToRemove s) - {[]})"
proof (induction s rule: drainRemoves.induct)
  case (1 s)
  show ?case
  proof (cases "entitiesToRemove s = []")
    case True
    then show ?thesis by (subst (1 2 3 4) drainRemoves.simps) simp
  next
    case False
    let ?k = "last (entitiesToRemove s)"
    let ?s1 = "s\<lparr>entitiesToRemove := butlast (entitiesToRemove s)\<rparr>"
    let ?s2 = "if ?k \<noteq> [] then
                 (case map_of (entities ?s1) ?k of
                    Some e \<Rightarrow> ?s1\<lparr>entities := AList.delete ?k (entities ?s1)\<rparr>
                  | None \<Rightarrow> ?s1)
               else ?s1"
    have d: "drainRemoves s = drainRemoves ?s2"
      using False by (subst drainRemoves.simps) (simp add: Let_def)
    have k: "fst ` set (entities ?s2) = fst ` set (entities s) - ({?k} - {[]})"
      by (auto simp: keys_delete map_of_eq_None_iff split: option.splits)
    have r: "entitiesToRemove ?s2 = butlast (entitiesToRemove s)" "entitiesToAdd ?s2 = entitiesToAdd s"
      "isUpdating ?s2 = isUpdating s"
      by (simp_all split: option.splits)
    from 1 [OF False refl refl] have
      "entitiesToRemove (drainRemoves ?s2) = [] \<and>
       entitiesToAdd (drainRemoves ?s2) = entitiesToAdd ?s2 \<and>
       isUpdating (drainRemoves ?s2) = isUpdating ?s2 \<and>
       fst ` set (entities (drainRemoves ?s2)) =
         fst ` set (entities ?s2) - (set (entitiesToRemove ?s2) - {[]})"
      by simp
    then have
      "entitiesToRemove (drainRemoves ?s2) = [] \<and>
       entitiesToAdd (drainRemoves ?s2) = entitiesToAdd s \<and>
       isUpdating (drainRemoves ?s2) = isUpdating s \<and>
       fst ` set (entities (drainRemoves ?s2)) =
         (fst ` set (entities s) - ({?k} - {[]})) - (set (butlast (entitiesToRemove s)) - {[]})"
      unfolding k r by simp
    moreover have "set (entitiesToRemove s) = insert ?k (set (butlast (entitiesToRemove s)))"
      by (rule set_butlast_last [OF False])
    ultimately show ?thesis
      unfolding d by auto
  qed
qed

lemma processPendingEntities_result:
  "entitiesToAdd (processPendingEntities s) = [] \<and>
   entitiesToRemove (processPendingEntities s) = [] \<and>
   isUpdating (processPendingEntities s) = isUpdating s \<and>
   fst ` set (entities (processPendingEntities s)) =
     (fst ` set (entities s) \<union> ident ` set (entitiesToAdd s)) - (set (entitiesToRemove s) - {[]})"
  using drainAdds_result [of s] drainRemoves_result [of "drainAdds s"]
  by (simp add: processPendingEntities_def)

lemma keys_map_entry: "map fst (AList.map_entry k f xs) = map fst xs"
  by (induction xs) simp_all

lemma physicsEntity_keys: "map fst (physicsEntity ph phys plat ents k) = map fst ents"
  by (simp add: physicsEntity_def Let_def keys_map_entry split: option.splits)

lemma foldl_physicsEntity_keys:
  "map fst (foldl (physicsEntity ph phys plat) ents ks) = map fst ents"
  by (induction ks arbitrary: ents) (simp_all add: physicsEntity_keys)

lemma physicsPass_frame:
  "map fst (entities (physicsPass phys plat s)) = map fst (entities s) \<and>
   isUpdating (physicsPass phys plat s) = isUpdating s \<and>
   entitiesToAdd (physicsPass phys plat s) = entitiesToAdd s \<and>
   entitiesToRemove (physicsPass phys plat s) = entitiesToRemove s"
  by (simp add: physicsPass_def foldl_physicsEntity_keys)

lemma foldl_applyCall_queues:
  "isUpdating s \<Longrightarrow>
     entitiesToAdd (foldl applyCall s cs) = entitiesToAdd s @ addsOf cs \<and>
     entitiesToRemove (foldl applyCall s cs) = entitiesToRemove s @ removesOf cs"
proof (induction cs arbitrary: s)
  case Nil
  then show ?case by simp
next
  case (Cons c cs)
  from Cons.prems have "isUpdating (applyCall s c)"
    by (simp add: applyCall_updating)
  from Cons.IH [OF this] Cons.prems show ?case
    by (cases c) (simp_all add: addEntity_def removeEntity_def)
qed

lemma visitEntity_queues:
  assumes "isUpdating (fst st)" and "entities (fst st) ! i = (k, e)" and "active e"
  shows "entitiesToAdd (fst (visitEntity bt dt i st)) =
           entitiesToAdd (fst st) @ addsOf (snd (Entity_update bt (entities (fst st)) e dt)) \<and>
         entitiesToRemove (fst (visitEntity bt dt i st)) =
           entitiesToRemove (fst st) @ removesOf (snd (Entity_update bt (entities (fst st)) e dt))"
proof -
  obtain s ph pl where st: "st = (s, ph, pl)" by (cases st)
  obtain e1 calls where eu: "Entity_update bt (entities s) e dt = (e1, calls)"
    by (cases "Entity_update bt (entities s) e dt")
  let ?s1 = "s\<lparr>entities := (entities s)[i := (k, e1)]\<rparr>"
  have u: "isUpdating ?s1" using assms st by simp
  from foldl_applyCall_queues [OF u, of calls] assms st eu show ?thesis
    by (simp add: visitEntity_def Let_def)
qed

lemma passPrefix_Suc: "passPrefix bt dt s (Suc j) = visitEntity bt dt j (passPrefix bt dt s j)"
  by (simp add: passPrefix_def)

lemma passPrefix_updating:
  "j \<le> length (entities s) \<Longrightarrow>
     isUpdating (fst (passPrefix bt dt s j)) \<and>
     map fst (entities (fst (passPrefix bt dt s j))) = map fst (entities s)"
proof (induction j)
  case 0
  then show ?case by (simp add: passPrefix_def)
next
  case (Suc j)
  then have ih: "isUpdating (fst (passPrefix bt dt s j))"
      "map fst (entities (fst (passPrefix bt dt s j))) = map fst (entities s)"
    by simp_all
  from ih(2) have "length (entities (fst (passPrefix bt dt s j))) = length (entities s)"
    by (metis length_map)
  with Suc.prems have "j < length (entities (fst (passPrefix bt dt s j)))"
    by simp
  from visitEntity_updating [OF ih(1) this, of bt dt] ih(2) show ?case
    by (simp add: passPrefix_Suc)
qed

lemma collectLoop_passPrefix:
  "collectLoop bt dt 0 (s\<lparr>isUpdating := True\<rparr>, [], []) =
     Some (passPrefix bt dt s (length (entities s)))"
  using collectLoop_eq [of "(s\<lparr>isUpdating := True\<rparr>, [], [])" 0 bt dt]
  by (simp add: passPrefix_def)

lemma find_snoc:
  "find P (xs @ [x]) = (case find P xs of Some y \<Rightarrow> Some y | None \<Rightarrow> if P x then Some x else None)"
  by (induction xs) simp_all

lemma drainAdds_map:
  "map_of (entities (drainAdds s)) k =
     (case find (\<lambda>e. ident e = k) (entitiesToAdd s) of
        Some e \<Rightarrow> Some e
      | None \<Rightarrow> map_of (entities s) k)"
proof (induction s rule: drainAdds.induct)
  case (1 s)
  show ?case
  proof (cases "entitiesToAdd s = []")
    case True
    then show ?thesis by (subst drainAdds.simps) simp
  next
    case False
    let ?e = "last (entitiesToAdd s)"
    let ?s1 = "s\<lparr>entitiesToAdd := butlast (entitiesToAdd s)\<rparr>"
    let ?s2 = "?s1\<lparr>entities := AList.update (ident ?e) ?e (entities ?s1)\<rparr>"
    have d: "drainAdds s = drainAdds ?s2"
      using False by (subst drainAdds.simps) (simp add: Let_def)
    have x: "entitiesToAdd s = butlast (entitiesToAdd s) @ [?e]"
      using False by simp
    have f: "find (\<lambda>e. ident e = k) (entitiesToAdd s) =
               (case find (\<lambda>e. ident e = k) (butlast (entitiesToAdd s)) of
                  Some y \<Rightarrow> Some y
                | None \<Rightarrow> if ident ?e = k then Some ?e else None)"
      by (subst x) (simp only: find_snoc)
    from 1 [OF False refl refl] have
      "map_of (entities (drainAdds ?s2)) k =
         (case find (\<lambda>e. ident e = k) (butlast (entitiesToAdd s)) of
            Some e \<Rightarrow> Some e
          | None \<Rightarrow> map_of (AList.update (ident ?e) ?e (entities s)) k)"
      by (simp split: option.splits)
    then show ?thesis
      unfolding d f by (simp add: update_conv' split: option.splits)
  qed
qed

lemma drainRemoves_map:
  "map_of (entities (drainRemoves s)) k =
     (if k \<in> set (entitiesToRemove s) \<and> k \<noteq> [] then None else map_of (entities s) k)"
proof (induction s rule: drainRemoves.induct)
  case (1 s)
  show ?case
  proof (cases "entitiesToRemove s = []")
    case True
    then show ?thesis by (subst drainRemoves.simps) simp
  next
    case False
    let ?k = "last (entitiesToRemove s)"
    let ?s1 = "s\<lparr>entitiesToRemove := butlast (entitiesToRemove s)\<rparr>"
    let ?s2 = "if ?k \<noteq> [] then
                 (case map_of (entities ?s1) ?k of
                    Some e \<Rightarrow> ?s1\<lparr>entities := AList.delete ?k (entities ?s1)\<rparr>
                  | None \<Rightarrow> ?s1)
               else ?s1"
    have d: "drainRemoves s = drainRemoves ?s2"
      using False by (subst drainRemoves.simps) (simp add: Let_def)
    have m: "map_of (entities ?s2) k = (if k = ?k \<and> k \<noteq> [] then None else map_of (entities s) k)"
      by (auto simp: delete_conv' split: option.splits)
    have r: "entitiesToRemove ?s2 = butlast (entitiesToRemove s)"
      by (simp split: option.splits)
    have sb: "set (entitiesToRemove s) = insert ?k (set (butlast (entitiesToRemove s)))"
      by (rule set_butlast_last [OF False])
    from 1 [OF False refl refl] have
      "map_of (entities (drainRemoves ?s2)) k =
         (if k \<in> set (entitiesToRemove ?s2) \<and> k \<noteq> [] then None else map_of (entities ?s2) k)"
      by simp
    then have
      "map_of (entities (drainRemoves ?s2)) k =
         (if k \<in> set (butlast (entitiesToRemove s)) \<and> k \<noteq> [] then None
          else if k = ?k \<and> k \<noteq> [] then None else map_of (entities s) k)"
      unfolding r m .
    then show ?thesis
      unfolding d sb by auto
  qed
qed

lemma processPendingEntities_map:
  "map_of (entities (processPendingEntities s)) k =
     (if k \<in> set (entitiesToRemove s) \<and> k \<noteq> [] then None
      else case find (\<lambda>e. ident e = k) (entitiesToAdd s) of
             Some e \<Rightarrow> Some e
           | None \<Rightarrow> map_of (entities s) k)"
  using drainAdds_result [of s]
  by (simp add: processPendingEntities_def drainRemoves_map drainAdds_map)

text \<open>
  C1 (as the code has it). While \<^verbatim>\<open>Scene.update\<close> is in progress, \<^verbatim>\<open>addEntity\<close> and
  \<^verbatim>\<open>removeEntity\<close> only append to the pending buffers (there is no failure branch). At every
  point of the pass the flag \<^verbatim>\<open>isUpdating\<close> is set and the keys of the entity map are those
  the pass started with, every call a hook makes is appended to the buffers, and the update
  returns. After the pass the buffers are drained, additions first, popped from the end, and
  removals second. The map then holds under an id: nothing, when the id is not empty and is
  queued for removal; otherwise the first entity queued for addition under that id, when
  there is one; otherwise what it held. So a queued addition whose id is not queued for
  removal is in the map under its id if no earlier queued addition has the same id, and a
  queued removal with a non-empty id is absent.
\<close>

theorem Scene_update_deferred:
  "(\<forall>s0 e. isUpdating s0 \<longrightarrow> addEntity s0 e = s0\<lparr>entitiesToAdd := entitiesToAdd s0 @ [e]\<rparr>) \<and>
   (\<forall>s0 k. isUpdating s0 \<longrightarrow> removeEntity s0 k = s0\<lparr>entitiesToRemove := entitiesToRemove s0 @ [k]\<rparr>) \<and>
   (\<forall>j \<le> length (entities s).
       isUpdating (fst (passPrefix bt dt s j)) \<and>
       map fst (entities (fst (passPrefix bt dt s j))) = map fst (entities s)) \<and>
   (\<forall>j < length (entities s). \<forall>k e.
       entities (fst (passPrefix bt dt s j)) ! j = (k, e) \<and> active e \<longrightarrow>
         entitiesToAdd (fst (passPrefix bt dt s (Suc j))) =
           entitiesToAdd (fst (passPrefix bt dt s j)) @
           addsOf (snd (Entity_update bt (entities (fst (passPrefix bt dt s j))) e dt)) \<and>
         entitiesToRemove (fst (passPrefix bt dt s (Suc j))) =
           entitiesToRemove (fst (passPrefix bt dt s j)) @
           removesOf (snd (Entity_update bt (entities (fst (passPrefix bt dt s j))) e dt))) \<and>
   (\<exists>s1 physicsEntities platformEntities s2.
       updatePass bt s dt = Some (s1, physicsEntities, platformEntities) \<and>
       Scene_update bt s dt = Some s2 \<and>
       isUpdating s1 \<and> map fst (entities s1) = map fst (entities s) \<and>
       entitiesToAdd s1 = entitiesToAdd (fst (passPrefix bt dt s (length (entities s)))) \<and>
       entitiesToRemove s1 = entitiesToRemove (fst (passPrefix bt dt s (length (entities s)))) \<and>
       (\<forall>k. map_of (entities s2) k =
              (if k \<in> set (entitiesToRemove s1) \<and> k \<noteq> [] then None
               else case find (\<lambda>a. ident a = k) (entitiesToAdd s1) of
                      Some a \<Rightarrow> Some a
                    | None \<Rightarrow> map_of (entities s1) k)) \<and>
       (\<forall>e \<in> set (entitiesToAdd s1).
           ident e \<notin> set (entitiesToRemove s1) \<longrightarrow>
           map_of (entities s2) (ident e) = find (\<lambda>a. ident a = ident e) (entitiesToAdd s1) \<and>
           ident e \<in> fst ` set (entities s2)) \<and>
       (\<forall>e \<in> set (entitiesToAdd s1).
           ident e \<notin> set (entitiesToRemove s1) \<and>
           find (\<lambda>a. ident a = ident e) (entitiesToAdd s1) = Some e \<longrightarrow>
           map_of (entities s2) (ident e) = Some e) \<and>
       (\<forall>k \<in> set (entitiesToRemove s1).
           k \<noteq> [] \<longrightarrow> map_of (entities s2) k = None \<and> k \<notin> fst ` set (entities s2)) \<and>
       entitiesToAdd s2 = [] \<and> entitiesToRemove s2 = [] \<and> \<not> isUpdating s2)"
proof -
  have q: "\<forall>s0 e. isUpdating s0 \<longrightarrow> addEntity s0 e = s0\<lparr>entitiesToAdd := entitiesToAdd s0 @ [e]\<rparr>"
    "\<forall>s0 k. isUpdating s0 \<longrightarrow> removeEntity s0 k = s0\<lparr>entitiesToRemove := entitiesToRemove s0 @ [k]\<rparr>"
    by (simp_all add: addEntity_def removeEntity_def)
  have pre: "\<forall>j \<le> length (entities s).
       isUpdating (fst (passPrefix bt dt s j)) \<and>
       map fst (entities (fst (passPrefix bt dt s j))) = map fst (entities s)"
    by (simp add: passPrefix_updating)
  have vis: "\<forall>j < length (entities s). \<forall>k e.
       entities (fst (passPrefix bt dt s j)) ! j = (k, e) \<and> active e \<longrightarrow>
         entitiesToAdd (fst (passPrefix bt dt s (Suc j))) =
           entitiesToAdd (fst (passPrefix bt dt s j)) @
           addsOf (snd (Entity_update bt (entities (fst (passPrefix bt dt s j))) e dt)) \<and>
         entitiesToRemove (fst (passPrefix bt dt s (Suc j))) =
           entitiesToRemove (fst (passPrefix bt dt s j)) @
           removesOf (snd (Entity_update bt (entities (fst (passPrefix bt dt s j))) e dt))"
  proof (intro allI impI)
    fix j k e
    assume j: "j < length (entities s)"
      and ke: "entities (fst (passPrefix bt dt s j)) ! j = (k, e) \<and> active e"
    from j have "isUpdating (fst (passPrefix bt dt s j))"
      by (simp add: passPrefix_updating)
    from visitEntity_queues [OF this, of j k e bt dt] ke
    show "entitiesToAdd (fst (passPrefix bt dt s (Suc j))) =
           entitiesToAdd (fst (passPrefix bt dt s j)) @
           addsOf (snd (Entity_update bt (entities (fst (passPrefix bt dt s j))) e dt)) \<and>
         entitiesToRemove (fst (passPrefix bt dt s (Suc j))) =
           entitiesToRemove (fst (passPrefix bt dt s j)) @
           removesOf (snd (Entity_update bt (entities (fst (passPrefix bt dt s j))) e dt))"
      by (simp add: passPrefix_Suc)
  qed
  obtain sc phys plat where r: "passPrefix bt dt s (length (entities s)) = (sc, phys, plat)"
    by (cases "passPrefix bt dt s (length (entities s))")
  from passPrefix_updating [of "length (entities s)" s bt dt] r
  have sc: "isUpdating sc" "map fst (entities sc) = map fst (entities s)"
    by simp_all
  let ?s1 = "physicsPass phys plat sc"
  let ?s2 = "processPendingEntities (?s1\<lparr>isUpdating := False\<rparr>)"
  have up: "updatePass bt s dt = Some (?s1, phys, plat)"
    by (simp add: updatePass_def collectLoop_passPrefix r)
  have su: "Scene_update bt s dt = Some ?s2"
    by (simp add: Scene_update_def up)
  have s1: "isUpdating ?s1" "map fst (entities ?s1) = map fst (entities s)"
    "entitiesToAdd ?s1 = entitiesToAdd (fst (passPrefix bt dt s (length (entities s))))"
    "entitiesToRemove ?s1 = entitiesToRemove (fst (passPrefix bt dt s (length (entities s))))"
    using physicsPass_frame [of phys plat sc] sc r by simp_all
  have pp: "entitiesToAdd ?s2 = []" "entitiesToRemove ?s2 = []" "\<not> isUpdating ?s2"
    using processPendingEntities_result [of "?s1\<lparr>isUpdating := False\<rparr>"] by simp_all
  have m: "\<forall>k. map_of (entities ?s2) k =
              (if k \<in> set (entitiesToRemove ?s1) \<and> k \<noteq> [] then None
               else case find (\<lambda>a. ident a = k) (entitiesToAdd ?s1) of
                      Some a \<Rightarrow> Some a
                    | None \<Rightarrow> map_of (entities ?s1) k)"
    by (simp add: processPendingEntities_map split: option.splits)
  have a: "\<forall>e \<in> set (entitiesToAdd ?s1).
           ident e \<notin> set (entitiesToRemove ?s1) \<longrightarrow>
           map_of (entities ?s2) (ident e) = find (\<lambda>a. ident a = ident e) (entitiesToAdd ?s1) \<and>
           ident e \<in> fst ` set (entities ?s2)"
  proof (intro ballI impI)
    fix e
    assume e: "e \<in> set (entitiesToAdd ?s1)" and n: "ident e \<notin> set (entitiesToRemove ?s1)"
    from e have "find (\<lambda>a. ident a = ident e) (entitiesToAdd ?s1) \<noteq> None"
      by (auto simp: find_None_iff)
    then obtain x where x: "find (\<lambda>a. ident a = ident e) (entitiesToAdd ?s1) = Some x"
      by blast
    with m n have f: "map_of (entities ?s2) (ident e) = Some x"
      by simp
    then have "ident e \<in> fst ` set (entities ?s2)"
      by (metis map_of_eq_None_iff option.distinct(1))
    with f x show "map_of (entities ?s2) (ident e) = find (\<lambda>a. ident a = ident e) (entitiesToAdd ?s1) \<and>
           ident e \<in> fst ` set (entities ?s2)"
      by simp
  qed
  have a2: "\<forall>e \<in> set (entitiesToAdd ?s1).
           ident e \<notin> set (entitiesToRemove ?s1) \<and>
           find (\<lambda>a. ident a = ident e) (entitiesToAdd ?s1) = Some e \<longrightarrow>
           map_of (entities ?s2) (ident e) = Some e"
    using a by simp
  have b: "\<forall>k \<in> set (entitiesToRemove ?s1).
           k \<noteq> [] \<longrightarrow> map_of (entities ?s2) k = None \<and> k \<notin> fst ` set (entities ?s2)"
  proof (intro ballI impI)
    fix k
    assume "k \<in> set (entitiesToRemove ?s1)" "k \<noteq> []"
    with m have n: "map_of (entities ?s2) k = None"
      by simp
    then have "k \<notin> fst ` set (entities ?s2)"
      by (metis map_of_eq_None_iff)
    with n show "map_of (entities ?s2) k = None \<and> k \<notin> fst ` set (entities ?s2)"
      by simp
  qed
  from up su s1 m a a2 b pp have
    "\<exists>s1 physicsEntities platformEntities s2.
       updatePass bt s dt = Some (s1, physicsEntities, platformEntities) \<and>
       Scene_update bt s dt = Some s2 \<and>
       isUpdating s1 \<and> map fst (entities s1) = map fst (entities s) \<and>
       entitiesToAdd s1 = entitiesToAdd (fst (passPrefix bt dt s (length (entities s)))) \<and>
       entitiesToRemove s1 = entitiesToRemove (fst (passPrefix bt dt s (length (entities s)))) \<and>
       (\<forall>k. map_of (entities s2) k =
              (if k \<in> set (entitiesToRemove s1) \<and> k \<noteq> [] then None
               else case find (\<lambda>a. ident a = k) (entitiesToAdd s1) of
                      Some a \<Rightarrow> Some a
                    | None \<Rightarrow> map_of (entities s1) k)) \<and>
       (\<forall>e \<in> set (entitiesToAdd s1).
           ident e \<notin> set (entitiesToRemove s1) \<longrightarrow>
           map_of (entities s2) (ident e) = find (\<lambda>a. ident a = ident e) (entitiesToAdd s1) \<and>
           ident e \<in> fst ` set (entities s2)) \<and>
       (\<forall>e \<in> set (entitiesToAdd s1).
           ident e \<notin> set (entitiesToRemove s1) \<and>
           find (\<lambda>a. ident a = ident e) (entitiesToAdd s1) = Some e \<longrightarrow>
           map_of (entities s2) (ident e) = Some e) \<and>
       (\<forall>k \<in> set (entitiesToRemove s1).
           k \<noteq> [] \<longrightarrow> map_of (entities s2) k = None \<and> k \<notin> fst ` set (entities s2)) \<and>
       entitiesToAdd s2 = [] \<and> entitiesToRemove s2 = [] \<and> \<not> isUpdating s2"
    by (intro exI [of _ ?s1] exI [of _ phys] exI [of _ plat] exI [of _ ?s2] conjI)
  with q pre vis show ?thesis by (intro conjI)
qed

lemma spawn_facts:
  "entitiesToAdd (fst (passPrefix demoTable 0 spawnScene (length (entities spawnScene)))) =
     [bullet, shell]"
  "entitiesToRemove (fst (passPrefix demoTable 0 spawnScene (length (entities spawnScene)))) = [''crate'']"
  "map fst (entities spawnScene) = [''spawner'', ''crate'']"
  "ident bullet = ''bullet''" "ident shell = ''bullet''" "xpos bullet = 10" "xpos shell = 50"
  "find (\<lambda>a. ident a = ''bullet'') [bullet, shell] = Some bullet"
  by code_simp+

theorem Scene_update_deferred_witness:
  "entitiesToAdd (fst (passPrefix demoTable 0 spawnScene (length (entities spawnScene)))) =
     [bullet, shell] \<and>
   ident bullet = ''bullet'' \<and> ident shell = ''bullet'' \<and> xpos bullet = 10 \<and> xpos shell = 50 \<and>
   entitiesToRemove (fst (passPrefix demoTable 0 spawnScene (length (entities spawnScene)))) = [''crate''] \<and>
   map fst (entities spawnScene) = [''spawner'', ''crate''] \<and>
   (\<exists>s1 physicsEntities platformEntities s2.
      updatePass demoTable spawnScene 0 = Some (s1, physicsEntities, platformEntities) \<and>
      Scene_update demoTable spawnScene 0 = Some s2 \<and>
      map fst (entities s1) = [''spawner'', ''crate''] \<and>
      map_of (entities s2) ''bullet'' = Some bullet \<and> map_of (entities s2) ''crate'' = None)"
proof -
  note f = spawn_facts
  have "\<exists>s1 physicsEntities platformEntities s2.
       updatePass demoTable spawnScene 0 = Some (s1, physicsEntities, platformEntities) \<and>
       Scene_update demoTable spawnScene 0 = Some s2 \<and>
       isUpdating s1 \<and> map fst (entities s1) = map fst (entities spawnScene) \<and>
       entitiesToAdd s1 = entitiesToAdd (fst (passPrefix demoTable 0 spawnScene (length (entities spawnScene)))) \<and>
       entitiesToRemove s1 = entitiesToRemove (fst (passPrefix demoTable 0 spawnScene (length (entities spawnScene)))) \<and>
       (\<forall>k. map_of (entities s2) k =
              (if k \<in> set (entitiesToRemove s1) \<and> k \<noteq> [] then None
               else case find (\<lambda>a. ident a = k) (entitiesToAdd s1) of
                      Some a \<Rightarrow> Some a
                    | None \<Rightarrow> map_of (entities s1) k)) \<and>
       (\<forall>e \<in> set (entitiesToAdd s1).
           ident e \<notin> set (entitiesToRemove s1) \<longrightarrow>
           map_of (entities s2) (ident e) = find (\<lambda>a. ident a = ident e) (entitiesToAdd s1) \<and>
           ident e \<in> fst ` set (entities s2)) \<and>
       (\<forall>e \<in> set (entitiesToAdd s1).
           ident e \<notin> set (entitiesToRemove s1) \<and>
           find (\<lambda>a. ident a = ident e) (entitiesToAdd s1) = Some e \<longrightarrow>
           map_of (entities s2) (ident e) = Some e) \<and>
       (\<forall>k \<in> set (entitiesToRemove s1).
           k \<noteq> [] \<longrightarrow> map_of (entities s2) k = None \<and> k \<notin> fst ` set (entities s2)) \<and>
       entitiesToAdd s2 = [] \<and> entitiesToRemove s2 = [] \<and> \<not> isUpdating s2"
    using Scene_update_deferred [of spawnScene demoTable 0] by (elim conjE)
  then obtain s1 physicsEntities platformEntities s2 where
    u: "updatePass demoTable spawnScene 0 = Some (s1, physicsEntities, platformEntities)"
      "Scene_update demoTable spawnScene 0 = Some s2"
      "map fst (entities s1) = map fst (entities spawnScene)"
    and b: "entitiesToAdd s1 =
              entitiesToAdd (fst (passPrefix demoTable 0 spawnScene (length (entities spawnScene))))"
      "entitiesToRemove s1 =
         entitiesToRemove (fst (passPrefix demoTable 0 spawnScene (length (entities spawnScene))))"
    and p: "\<forall>e \<in> set (entitiesToAdd s1).
           ident e \<notin> set (entitiesToRemove s1) \<and>
           find (\<lambda>a. ident a = ident e) (entitiesToAdd s1) = Some e \<longrightarrow>
           map_of (entities s2) (ident e) = Some e"
      "\<forall>k \<in> set (entitiesToRemove s1).
           k \<noteq> [] \<longrightarrow> map_of (entities s2) k = None \<and> k \<notin> fst ` set (entities s2)"
    by (elim exE conjE)
  from b f have q: "entitiesToAdd s1 = [bullet, shell]" "entitiesToRemove s1 = [''crate'']"
    by simp_all
  from p(1) q f(4,8) have "map_of (entities s2) ''bullet'' = Some bullet"
    by simp
  moreover from p(2) q have "map_of (entities s2) ''crate'' = None"
    by simp
  moreover from u(3) f(3) have "map fst (entities s1) = [''spawner'', ''crate'']"
    by simp
  ultimately have "\<exists>s1 physicsEntities platformEntities s2.
      updatePass demoTable spawnScene 0 = Some (s1, physicsEntities, platformEntities) \<and>
      Scene_update demoTable spawnScene 0 = Some s2 \<and>
      map fst (entities s1) = [''spawner'', ''crate''] \<and>
      map_of (entities s2) ''bullet'' = Some bullet \<and> map_of (entities s2) ''crate'' = None"
    using u(1,2) by (intro exI conjI)
  with f(1,2,3,4,5,6,7) show ?thesis
    by (intro conjI)
qed

theorem Scene_update_added_and_removed_counterexample:
  "map_option (entitiesToAdd \<circ> fst) (updatePass demoTable flickerScene 0) = Some [spark] \<and>
   map_option (map fst \<circ> entities) (Scene_update demoTable flickerScene 0) = Some [''lamp'']"
  by code_simp

section \<open>Scene: an update with zero delta time\<close>

lemma nth_map_entry_other:
  "j < length xs \<Longrightarrow> fst (xs ! j) \<noteq> k \<Longrightarrow> AList.map_entry k f xs ! j = xs ! j"
proof (induction xs arbitrary: j)
  case Nil
  then show ?case by simp
next
  case (Cons p ps)
  then show ?case by (cases j) auto
qed

lemma physicsEntity_nth_other:
  assumes "j < length ents" and "fst (ents ! j) \<noteq> k"
  shows "physicsEntity ph phys plat ents k ! j = ents ! j"
proof (cases "map_of ents k")
  case None
  then show ?thesis by (simp add: physicsEntity_def)
next
  case (Some e)
  let ?e1 = "Physics_update ph e"
  let ?ents1 = "AList.map_entry k (\<lambda>_. ?e1) ents"
  have 1: "?ents1 ! j = ents ! j"
    using assms by (rule nth_map_entry_other)
  have "length ?ents1 = length ents"
    by (metis keys_map_entry length_map)
  with assms 1 have "AList.map_entry k f ?ents1 ! j = ents ! j" for f
    by (simp add: nth_map_entry_other)
  with Some show ?thesis
    by (simp add: physicsEntity_def Let_def)
qed

lemma foldl_physicsEntity_nth_other:
  assumes "j < length ents" and "fst (ents ! j) \<notin> set ks"
  shows "foldl (physicsEntity ph phys plat) ents ks ! j = ents ! j"
  using assms
proof (induction ks arbitrary: ents)
  case Nil
  then show ?case by simp
next
  case (Cons k ks)
  let ?e = "physicsEntity ph phys plat ents k"
  have n: "?e ! j = ents ! j"
    using Cons.prems by (intro physicsEntity_nth_other) auto
  have l: "length ?e = length ents"
    by (metis physicsEntity_keys length_map)
  from Cons.IH [of ?e] Cons.prems n l show ?case
    by simp
qed


lemma visitEntity_idle:
  assumes "i < length (entities s)" and "entities s ! i = (k, e)"
    and "Entity_update bt (entities s) e dt = (e, [])"
  shows "visitEntity bt dt i (s, ph, pl) =
           (s, ph @ physicsKeys [entities s ! i], pl @ platformKeys [entities s ! i])"
proof -
  have "s\<lparr>entities := (entities s)[i := (k, e)]\<rparr> = s"
    using assms(1,2) by (metis list_update_id scene.surjective scene.update_convs(2))
  with assms show ?thesis
    by (simp add: visitEntity_def Let_def physicsKeys_def platformKeys_def)
qed

lemma physicsKeys_append: "physicsKeys (xs @ ys) = physicsKeys xs @ physicsKeys ys"
  by (simp add: physicsKeys_def)

lemma platformKeys_append: "platformKeys (xs @ ys) = platformKeys xs @ platformKeys ys"
  by (simp add: platformKeys_def)

lemma passPrefix_idle:
  assumes idle: "\<forall>(k, e) \<in> set (entities s). \<forall>view. Entity_update bt view e dt = (e, [])"
    and "j \<le> length (entities s)"
  shows "passPrefix bt dt s j =
           (s\<lparr>isUpdating := True\<rparr>, physicsKeys (take j (entities s)), platformKeys (take j (entities s)))"
  using assms(2)
proof (induction j)
  case 0
  then show ?case by (simp add: passPrefix_def physicsKeys_def platformKeys_def)
next
  case (Suc j)
  let ?s = "s\<lparr>isUpdating := True\<rparr>"
  obtain k e where ke: "entities s ! j = (k, e)" by (cases "entities s ! j")
  from Suc.prems have lt: "j < length (entities s)" by simp
  with ke have "(k, e) \<in> set (entities s)" by (metis nth_mem)
  with idle have eu: "Entity_update bt (entities ?s) e dt = (e, [])" by auto
  have t: "take (Suc j) (entities s) = take j (entities s) @ [entities s ! j]"
    using lt by (rule take_Suc_conv_app_nth)
  from Suc.IH lt have "passPrefix bt dt s j =
      (?s, physicsKeys (take j (entities s)), platformKeys (take j (entities s)))"
    by simp
  moreover have "visitEntity bt dt j (?s, physicsKeys (take j (entities s)), platformKeys (take j (entities s))) =
      (?s, physicsKeys (take j (entities s)) @ physicsKeys [entities ?s ! j],
           platformKeys (take j (entities s)) @ platformKeys [entities ?s ! j])"
    using lt ke eu by (intro visitEntity_idle) simp_all
  ultimately show ?case
    by (simp add: passPrefix_Suc t physicsKeys_append platformKeys_append)
qed

lemma not_in_physicsKeys:
  assumes "distinct (map fst xs)" and "j < length xs"
    and "\<not> (active (snd (xs ! j)) \<and> \<not> hasTag (snd (xs ! j)) ''platform'')"
  shows "fst (xs ! j) \<notin> set (physicsKeys xs)"
proof
  assume "fst (xs ! j) \<in> set (physicsKeys xs)"
  then obtain e where e: "(fst (xs ! j), e) \<in> set xs" "active e \<and> \<not> hasTag e ''platform''"
    by (auto simp: physicsKeys_def)
  have "(fst (xs ! j), snd (xs ! j)) \<in> set xs"
    using assms(2) by simp
  with e(1) assms(1) have "e = snd (xs ! j)"
    by (metis eq_key_imp_eq_value)
  with e(2) assms(3) show False by simp
qed

lemma processPendingEntities_empty:
  "entitiesToAdd s = [] \<Longrightarrow> entitiesToRemove s = [] \<Longrightarrow> processPendingEntities s = s"
  by (simp add: processPendingEntities_def drainAdds.simps drainRemoves.simps)

lemma Scene_update_idle:
  assumes "\<forall>(k, e) \<in> set (entities s). \<forall>view. Entity_update bt view e dt = (e, [])"
    and "entitiesToAdd s = []" and "entitiesToRemove s = []"
  shows "Scene_update bt s dt =
           Some (s\<lparr>entities :=
                    foldl (physicsEntity (scenePhysics s) (physicsKeys (entities s))
                             (platformKeys (entities s)))
                      (entities s) (physicsKeys (entities s)),
                  isUpdating := False\<rparr>)"
proof -
  have c: "collectLoop bt dt 0 (s\<lparr>isUpdating := True\<rparr>, [], []) =
             Some (s\<lparr>isUpdating := True\<rparr>, physicsKeys (entities s), platformKeys (entities s))"
    using passPrefix_idle [OF assms(1), of "length (entities s)"]
    by (simp add: collectLoop_passPrefix)
  show ?thesis
    using assms(2,3)
    by (simp add: Scene_update_def updatePass_def c physicsPass_def processPendingEntities_empty)
qed

lemma nth_map_entry_self:
  "distinct (map fst xs) \<Longrightarrow> j < length xs \<Longrightarrow> xs ! j = (k, e) \<Longrightarrow>
     AList.map_entry k f xs ! j = (k, f e)"
proof (induction xs arbitrary: j)
  case Nil
  then show ?case by simp
next
  case (Cons p ps)
  show ?case
  proof (cases j)
    case 0
    with Cons.prems show ?thesis by (cases p) auto
  next
    case (Suc i)
    with Cons.prems have i: "i < length ps" "ps ! i = (k, e)" "distinct (map fst ps)" by auto
    then have "(k, e) \<in> set ps" by (metis nth_mem)
    then have "k \<in> fst ` set ps" by force
    with Cons.prems(1) have "fst p \<noteq> k" by auto
    with Cons.IH [OF i(3) i(1) i(2)] Suc show ?thesis by (cases p) auto
  qed
qed

lemma map_of_nth:
  "distinct (map fst xs) \<Longrightarrow> j < length xs \<Longrightarrow> xs ! j = (k, e) \<Longrightarrow> map_of xs k = Some e"
  by (metis map_of_eq_Some_iff nth_mem)

lemma length_map_entry [simp]: "length (AList.map_entry k f xs) = length xs"
  by (metis keys_map_entry length_map)

lemma length_physicsEntity: "length (physicsEntity ph phys plat ents k) = length ents"
  by (metis physicsEntity_keys length_map)

lemma length_foldl_physicsEntity: "length (foldl (physicsEntity ph phys plat) ents ks) = length ents"
  by (metis foldl_physicsEntity_keys length_map)

lemma checkCollisions_Nil: "checkCollisions ph k a [] = a"
  by (simp add: checkCollisions_def)

lemma checkCollisions_Cons:
  "checkCollisions ph k a ((q, other) # others) =
     checkCollisions ph k
       (if q = k then a
        else (let r = detectCollision a other in if collided r then resolveCollision ph a other r else a))
       others"
  by (simp add: checkCollisions_def)

lemma lookupAll_Nil: "lookupAll ents [] = []"
  by (simp add: lookupAll_def map_filter_simps)

lemma lookupAll_Cons:
  "lookupAll ents (q # ks) =
     (case map_of ents q of None \<Rightarrow> lookupAll ents ks | Some e \<Rightarrow> (q, e) # lookupAll ents ks)"
  by (simp add: lookupAll_def map_filter_simps split: option.splits)

lemma checkCollisions_self:
  "checkCollisions ph k a (lookupAll (AList.map_entry k f ents) ks) =
     checkCollisions ph k a (lookupAll ents ks)"
proof (induction ks arbitrary: a)
  case Nil
  show ?case by (simp add: lookupAll_Nil)
next
  case (Cons q ks)
  show ?case
  proof (cases "q = k")
    case True
    then show ?thesis
      by (cases "map_of ents k")
        (simp_all add: lookupAll_Cons map_of_map_entry checkCollisions_Cons Cons.IH)
  next
    case False
    then show ?thesis
      by (cases "map_of ents q")
        (simp_all add: lookupAll_Cons map_of_map_entry checkCollisions_Cons Cons.IH)
  qed
qed

lemma physicsEntity_nth_self:
  assumes "distinct (map fst ents)" and "j < length ents" and "ents ! j = (k, e)"
  shows "physicsEntity ph phys plat ents k ! j =
           (k, checkCollisions ph k
                 (checkCollisions ph k (Physics_update ph e) (lookupAll ents phys))
                 (lookupAll ents plat))"
proof -
  let ?e1 = "Physics_update ph e"
  let ?ents1 = "AList.map_entry k (\<lambda>_. ?e1) ents"
  have m: "map_of ents k = Some e"
    using assms by (rule map_of_nth)
  have 1: "?ents1 ! j = (k, ?e1)"
    using assms by (rule nth_map_entry_self)
  have d1: "distinct (map fst ?ents1)"
    using assms(1) by (simp add: keys_map_entry)
  have l1: "j < length ?ents1"
    using assms(2) by simp
  have "AList.map_entry k (\<lambda>_. x) ?ents1 ! j = (k, x)" for x
    using nth_map_entry_self [OF d1 l1 1, of "\<lambda>_. x"] by simp
  with m show ?thesis
    by (simp add: physicsEntity_def Let_def checkCollisions_self)
qed

lemma physicsKeys_subset: "set (physicsKeys ys) \<subseteq> fst ` set ys"
  by (auto simp: physicsKeys_def)

lemma key_not_before:
  assumes "distinct (map fst xs)" and "j < length xs" and "i < j"
  shows "fst (xs ! i) \<notin> fst ` set (drop j xs)"
proof
  assume "fst (xs ! i) \<in> fst ` set (drop j xs)"
  then obtain p where p: "p \<in> set (drop j xs)" "fst p = fst (xs ! i)" by auto
  then obtain n where n: "n < length (drop j xs)" "drop j xs ! n = p"
    by (metis in_set_conv_nth)
  then have "xs ! (j + n) = p" "j + n < length xs" by simp_all
  with p(2) assms have "map fst xs ! (j + n) = map fst xs ! i" by simp
  with assms \<open>j + n < length xs\<close> have "j + n = i"
    by (metis (no_types, lifting) length_map less_trans nth_eq_iff_index_eq)
  with assms(3) show False by simp
qed

lemma key_not_after:
  assumes "distinct (map fst xs)" and "i < length xs" and "j \<le> i"
  shows "fst (xs ! i) \<notin> fst ` set (take j xs)"
proof
  assume "fst (xs ! i) \<in> fst ` set (take j xs)"
  then obtain p where p: "p \<in> set (take j xs)" "fst p = fst (xs ! i)" by auto
  then obtain n where n: "n < length (take j xs)" "take j xs ! n = p"
    by (metis in_set_conv_nth)
  then have "xs ! n = p" "n < j" "n < length xs" by simp_all
  with p(2) assms have "map fst xs ! n = map fst xs ! i" by simp
  with assms \<open>n < length xs\<close> have "n = i"
    by (metis length_map nth_eq_iff_index_eq)
  with \<open>n < j\<close> assms(3) show False by simp
qed

lemma foldl_physicsEntity_entry:
  assumes d: "distinct (map fst xs)" and j: "j < length xs" and ke: "xs ! j = (k, e)"
    and phys: "active e \<and> \<not> hasTag e ''platform''"
  shows "foldl (physicsEntity ph phys plat) xs (physicsKeys xs) ! j =
           (k, checkCollisions ph k
                 (checkCollisions ph k (Physics_update ph e)
                    (lookupAll (take j (foldl (physicsEntity ph phys plat) xs (physicsKeys xs)) @
                                drop j xs) phys))
                 (lookupAll (take j (foldl (physicsEntity ph phys plat) xs (physicsKeys xs)) @
                             drop j xs) plat))"
proof -
  let ?P = "physicsKeys xs"
  let ?step = "physicsEntity ph phys plat"
  let ?pre = "physicsKeys (take j xs)"
  let ?post = "physicsKeys (drop (Suc j) xs)"
  let ?A = "foldl ?step xs ?pre"
  let ?B = "?step ?A k"
  let ?F = "foldl ?step xs ?P"
  have split: "xs = take j xs @ [xs ! j] @ drop (Suc j) xs"
    using j by (simp add: id_take_nth_drop [symmetric])
  have "physicsKeys xs = physicsKeys (take j xs @ [xs ! j] @ drop (Suc j) xs)"
    using split by simp
  also have "\<dots> = ?pre @ [k] @ ?post"
    using ke phys by (simp add: physicsKeys_append) (simp add: physicsKeys_def)
  finally have P: "?P = ?pre @ [k] @ ?post" .
  have F: "?F = foldl ?step ?B ?post"
    by (simp only: P foldl_append foldl_Cons foldl_Nil)
  have lA: "length ?A = length xs" by (rule length_foldl_physicsEntity)
  have lB: "length ?B = length xs" by (simp add: length_physicsEntity lA)
  have lF: "length ?F = length xs" by (rule length_foldl_physicsEntity)
  have kA: "map fst ?A = map fst xs" by (rule foldl_physicsEntity_keys)
  have kB: "map fst ?B = map fst xs" by (simp add: physicsEntity_keys kA)
  have dA: "distinct (map fst ?A)" using d kA by simp
  have fstA: "fst (?A ! i) = fst (xs ! i)" if "i < length xs" for i
    using kA that by (metis lA nth_map)
  have fstB: "fst (?B ! i) = fst (xs ! i)" if "i < length xs" for i
    using kB that by (metis lB nth_map)
  have late: "?A ! i = xs ! i" if "i < length xs" "j \<le> i" for i
  proof -
    have "fst (xs ! i) \<notin> set ?pre"
      using key_not_after [OF d that] physicsKeys_subset [of "take j xs"] by blast
    with that(1) show ?thesis by (simp add: foldl_physicsEntity_nth_other)
  qed
  from late [of j] j ke have Aj: "?A ! j = (k, e)" by simp
  have Bj: "?B ! j = (k, checkCollisions ph k
                 (checkCollisions ph k (Physics_update ph e) (lookupAll ?A phys)) (lookupAll ?A plat))"
    using dA j Aj by (intro physicsEntity_nth_self) (simp_all add: lA)
  have kpost: "k \<notin> set ?post"
  proof -
    have "fst (xs ! j) \<notin> fst ` set (drop (Suc j) xs)"
    proof (cases "Suc j < length xs")
      case True
      then show ?thesis using key_not_before [OF d True, of j] by simp
    next
      case False
      then show ?thesis by simp
    qed
    with ke physicsKeys_subset [of "drop (Suc j) xs"] show ?thesis by auto
  qed
  have Fj: "?F ! j = ?B ! j"
    unfolding F using j kpost Bj by (intro foldl_physicsEntity_nth_other) (simp_all add: lB)
  have early: "?F ! i = ?A ! i" if "i < j" for i
  proof -
    from that j have il: "i < length xs" by simp
    have nk: "fst (xs ! i) \<noteq> k"
    proof
      assume "fst (xs ! i) = k"
      with ke have "map fst xs ! i = map fst xs ! j" using il j by simp
      with d il j have "i = j" by (metis length_map nth_eq_iff_index_eq)
      with that show False by simp
    qed
    have np: "fst (xs ! i) \<notin> set ?post"
    proof (cases "Suc j < length xs")
      case True
      then show ?thesis
        using key_not_before [OF d True, of i] that physicsKeys_subset [of "drop (Suc j) xs"]
        by auto
    next
      case False
      then show ?thesis by (simp add: physicsKeys_def)
    qed
    have "?F ! i = ?B ! i"
      unfolding F using il np by (intro foldl_physicsEntity_nth_other) (simp_all add: lB fstB)
    also have "\<dots> = ?A ! i"
      using il nk by (intro physicsEntity_nth_other) (simp_all add: lA fstA)
    finally show ?thesis .
  qed
  have A: "?A = take j ?F @ drop j xs"
  proof (rule nth_equalityI)
    show "length ?A = length (take j ?F @ drop j xs)"
      using j by (simp add: lA lF)
  next
    fix i
    assume "i < length ?A"
    then have il: "i < length xs" by (simp add: lA)
    show "?A ! i = (take j ?F @ drop j xs) ! i"
    proof (cases "i < j")
      case True
      with j early [OF True] show ?thesis by (simp add: nth_append lF)
    next
      case False
      with il late [of i] j show ?thesis by (simp add: nth_append lF)
    qed
  qed
  from Fj Bj have "?F ! j = (k, checkCollisions ph k
                 (checkCollisions ph k (Physics_update ph e) (lookupAll ?A phys)) (lookupAll ?A plat))"
    by simp
  then show ?thesis
    by (subst (asm) (1 2) A)
qed


lemma Scene_update_idle_entries:
  assumes idle: "\<forall>(k, e) \<in> set (entities s). \<forall>view. Entity_update bt view e dt = (e, [])"
    and q: "entitiesToAdd s = []" "entitiesToRemove s = []"
    and d: "distinct (map fst (entities s))"
  shows "\<exists>s2. Scene_update bt s dt = Some s2 \<and>
           entities s2 =
             foldl (physicsEntity (scenePhysics s) (physicsKeys (entities s))
                      (platformKeys (entities s)))
               (entities s) (physicsKeys (entities s)) \<and>
           map fst (entities s2) = map fst (entities s) \<and>
           (\<forall>j < length (entities s). \<forall>k e. entities s ! j = (k, e) \<longrightarrow>
              (\<not> active e \<or> hasTag e ''platform'' \<longrightarrow> entities s2 ! j = (k, e)) \<and>
              (active e \<and> \<not> hasTag e ''platform'' \<longrightarrow>
                 entities s2 ! j =
                   (k, resolvedAgainst (scenePhysics s) k
                         (resolvedAgainst (scenePhysics s) k (Physics_update (scenePhysics s) e)
                            (lookupAll (take j (entities s2) @ drop j (entities s))
                               (physicsKeys (entities s))))
                         (lookupAll (take j (entities s2) @ drop j (entities s))
                            (platformKeys (entities s))))))"
proof -
  let ?f = "foldl (physicsEntity (scenePhysics s) (physicsKeys (entities s))
                      (platformKeys (entities s)))
               (entities s) (physicsKeys (entities s))"
  let ?s2 = "s\<lparr>entities := ?f, isUpdating := False\<rparr>"
  have u: "Scene_update bt s dt = Some ?s2"
    using idle q by (rule Scene_update_idle)
  have k: "map fst (entities ?s2) = map fst (entities s)"
    by (simp add: foldl_physicsEntity_keys)
  have n: "\<forall>j < length (entities s). \<forall>k e. entities s ! j = (k, e) \<longrightarrow>
              (\<not> active e \<or> hasTag e ''platform'' \<longrightarrow> entities ?s2 ! j = (k, e)) \<and>
              (active e \<and> \<not> hasTag e ''platform'' \<longrightarrow>
                 entities ?s2 ! j =
                   (k, resolvedAgainst (scenePhysics s) k
                         (resolvedAgainst (scenePhysics s) k (Physics_update (scenePhysics s) e)
                            (lookupAll (take j (entities ?s2) @ drop j (entities s))
                               (physicsKeys (entities s))))
                         (lookupAll (take j (entities ?s2) @ drop j (entities s))
                            (platformKeys (entities s)))))"
  proof (intro allI impI conjI)
    fix j k e
    assume j: "j < length (entities s)" and ke: "entities s ! j = (k, e)"
      and "\<not> active e \<or> hasTag e ''platform''"
    then have "fst (entities s ! j) \<notin> set (physicsKeys (entities s))"
      using d by (intro not_in_physicsKeys) auto
    with j ke show "entities ?s2 ! j = (k, e)"
      by (simp add: foldl_physicsEntity_nth_other)
  next
    fix j k e
    assume j: "j < length (entities s)" and ke: "entities s ! j = (k, e)"
      and p: "active e \<and> \<not> hasTag e ''platform''"
    from foldl_physicsEntity_entry [OF d j ke p, of "scenePhysics s" "physicsKeys (entities s)"
        "platformKeys (entities s)"]
    show "entities ?s2 ! j =
                   (k, resolvedAgainst (scenePhysics s) k
                         (resolvedAgainst (scenePhysics s) k (Physics_update (scenePhysics s) e)
                            (lookupAll (take j (entities ?s2) @ drop j (entities s))
                               (physicsKeys (entities s))))
                         (lookupAll (take j (entities ?s2) @ drop j (entities s))
                            (platformKeys (entities s))))"
      by (simp add: checkCollisions_def)
  qed
  from u k n show ?thesis
    by (intro exI [of _ ?s2] conjI) simp_all
qed

text \<open>
  C2 (as the code has it). \<^verbatim>\<open>Scene.update\<close> hands the delta time to the behaviour hooks
  only; the physics loop does not use it. When the hooks of a scene do nothing at delta time
  zero, \<^verbatim>\<open>Scene.update(0)\<close> returns and keeps the keys; an entity that is inactive or
  tagged \<^verbatim>\<open>platform\<close> is left as it was; every other entity is first advanced by
  \<^verbatim>\<open>Physics.update\<close>, which adds gravity to the vertical velocity of an entity that is not
  on the ground and moves the entity by one frame of its velocity, and is then run through
  \<^verbatim>\<open>detectCollision\<close> and \<^verbatim>\<open>resolveCollision\<close> against the physics entities and then against
  the platforms, each as the pass has left it at that moment (the entities before it in the
  map already moved, those after it not yet).
\<close>

theorem Scene_update_zero_delta:
  assumes "\<forall>(k, e) \<in> set (entities s). \<forall>view. Entity_update bt view e 0 = (e, [])"
    and "entitiesToAdd s = []" and "entitiesToRemove s = []"
    and "distinct (map fst (entities s))"
  shows "\<exists>s2. Scene_update bt s 0 = Some s2 \<and>
           map fst (entities s2) = map fst (entities s) \<and>
           (\<forall>j < length (entities s). \<forall>k e. entities s ! j = (k, e) \<longrightarrow>
              (\<not> active e \<or> hasTag e ''platform'' \<longrightarrow> entities s2 ! j = (k, e)) \<and>
              (active e \<and> \<not> hasTag e ''platform'' \<longrightarrow>
                 entities s2 ! j =
                   (k, resolvedAgainst (scenePhysics s) k
                         (resolvedAgainst (scenePhysics s) k (Physics_update (scenePhysics s) e)
                            (lookupAll (take j (entities s2) @ drop j (entities s))
                               (physicsKeys (entities s))))
                         (lookupAll (take j (entities s2) @ drop j (entities s))
                            (platformKeys (entities s)))))) \<and>
           (\<forall>ph e. xpos (Physics_update ph e) = xpos e + velocityX (Physics_update ph e) \<and>
                   ypos (Physics_update ph e) = ypos e + velocityY (Physics_update ph e) \<and>
                   (\<not> onGround e \<longrightarrow>
                      velocityY (Physics_update ph e) =
                        (if velocityY e + nullish (gravity e) (worldGravity ph) > terminalVelocity ph
                         then terminalVelocity ph
                         else velocityY e + nullish (gravity e) (worldGravity ph))))"
proof -
  have p: "\<forall>ph e. xpos (Physics_update ph e) = xpos e + velocityX (Physics_update ph e) \<and>
                   ypos (Physics_update ph e) = ypos e + velocityY (Physics_update ph e) \<and>
                   (\<not> onGround e \<longrightarrow>
                      velocityY (Physics_update ph e) =
                        (if velocityY e + nullish (gravity e) (worldGravity ph) > terminalVelocity ph
                         then terminalVelocity ph
                         else velocityY e + nullish (gravity e) (worldGravity ph)))"
    by (simp add: Physics_update_def Let_def)
  from Scene_update_idle_entries [OF assms] obtain s2 where
    "Scene_update bt s 0 = Some s2" "map fst (entities s2) = map fst (entities s)"
    "\<forall>j < length (entities s). \<forall>k e. entities s ! j = (k, e) \<longrightarrow>
              (\<not> active e \<or> hasTag e ''platform'' \<longrightarrow> entities s2 ! j = (k, e)) \<and>
              (active e \<and> \<not> hasTag e ''platform'' \<longrightarrow>
                 entities s2 ! j =
                   (k, resolvedAgainst (scenePhysics s) k
                         (resolvedAgainst (scenePhysics s) k (Physics_update (scenePhysics s) e)
                            (lookupAll (take j (entities s2) @ drop j (entities s))
                               (physicsKeys (entities s))))
                         (lookupAll (take j (entities s2) @ drop j (entities s))
                            (platformKeys (entities s)))))"
    by (elim exE conjE)
  with p show ?thesis
    by (intro exI [of _ s2] conjI)
qed

lemma landScene_entities: "entities landScene = [(''p'', hoverPlayer), (''f'', thinPlatform)]"
  by (simp add: landScene_def addEntity_def Scene_new_def hoverPlayer_def fallingPlayer_def
      thinPlatform_def blankEntity_def)

lemma landScene_facts:
  "resolvedAgainst (scenePhysics landScene) ''p''
     (resolvedAgainst (scenePhysics landScene) ''p'' (Physics_update (scenePhysics landScene) hoverPlayer)
        (lookupAll (entities landScene) (physicsKeys (entities landScene))))
     (lookupAll (entities landScene) (platformKeys (entities landScene))) =
   hoverPlayer\<lparr>ypos := 98, velocityY := 0, onGround := True\<rparr>"
  "ypos (Physics_update (scenePhysics landScene) hoverPlayer) = 201 / 2"
  "collided (detectCollision hoverPlayer thinPlatform) = False"
  by code_simp+

theorem Scene_update_zero_delta_witness:
  "entities landScene = [(''p'', hoverPlayer), (''f'', thinPlatform)] \<and>
   behaviors hoverPlayer = [] \<and> behaviors thinPlatform = [] \<and>
   entitiesToAdd landScene = [] \<and> entitiesToRemove landScene = [] \<and>
   distinct (map fst (entities landScene)) \<and>
   ypos hoverPlayer = 95 \<and> velocityY hoverPlayer = 5 \<and>
   collided (detectCollision hoverPlayer thinPlatform) = False \<and>
   ypos (Physics_update (scenePhysics landScene) hoverPlayer) = 201 / 2 \<and>
   (\<exists>s2. Scene_update demoTable landScene 0 = Some s2 \<and>
         entities s2 ! 1 = (''f'', thinPlatform) \<and>
         entities s2 ! 0 = (''p'', hoverPlayer\<lparr>ypos := 98, velocityY := 0, onGround := True\<rparr>))"
proof -
  note e = landScene_entities
  have i: "\<forall>(k, e) \<in> set (entities landScene). \<forall>view. Entity_update demoTable view e 0 = (e, [])"
    by (simp add: e Entity_update_def hoverPlayer_def fallingPlayer_def thinPlatform_def
        blankEntity_def)
  have b: "entitiesToAdd landScene = []" "entitiesToRemove landScene = []"
    by (simp_all add: landScene_def addEntity_def Scene_new_def)
  have d: "distinct (map fst (entities landScene))"
    by (simp add: e)
  have t: "hasTag thinPlatform ''platform''" "active hoverPlayer \<and> \<not> hasTag hoverPlayer ''platform''"
    by (simp_all add: hasTag_def thinPlatform_def hoverPlayer_def fallingPlayer_def blankEntity_def)
  have l: "0 < length (entities landScene)" "1 < length (entities landScene)"
    "entities landScene ! 0 = (''p'', hoverPlayer)" "entities landScene ! 1 = (''f'', thinPlatform)"
    by (simp_all add: e)
  from Scene_update_zero_delta [OF i b d] obtain s2 where
    s2: "Scene_update demoTable landScene 0 = Some s2"
    and n: "\<forall>j < length (entities landScene). \<forall>k e. entities landScene ! j = (k, e) \<longrightarrow>
              (\<not> active e \<or> hasTag e ''platform'' \<longrightarrow> entities s2 ! j = (k, e)) \<and>
              (active e \<and> \<not> hasTag e ''platform'' \<longrightarrow>
                 entities s2 ! j =
                   (k, resolvedAgainst (scenePhysics landScene) k
                         (resolvedAgainst (scenePhysics landScene) k
                            (Physics_update (scenePhysics landScene) e)
                            (lookupAll (take j (entities s2) @ drop j (entities landScene))
                               (physicsKeys (entities landScene))))
                         (lookupAll (take j (entities s2) @ drop j (entities landScene))
                            (platformKeys (entities landScene)))))"
    by (elim exE conjE)
  from n l(2,4) t(1) have 1: "entities s2 ! 1 = (''f'', thinPlatform)"
    by blast
  from n l(1,3) t(2) have "entities s2 ! 0 =
                   (''p'', resolvedAgainst (scenePhysics landScene) ''p''
                         (resolvedAgainst (scenePhysics landScene) ''p''
                            (Physics_update (scenePhysics landScene) hoverPlayer)
                            (lookupAll (take 0 (entities s2) @ drop 0 (entities landScene))
                               (physicsKeys (entities landScene))))
                         (lookupAll (take 0 (entities s2) @ drop 0 (entities landScene))
                            (platformKeys (entities landScene))))"
    by blast
  then have 0: "entities s2 ! 0 = (''p'', hoverPlayer\<lparr>ypos := 98, velocityY := 0, onGround := True\<rparr>)"
    by (simp add: landScene_facts(1))
  from s2 0 1 have x: "\<exists>s2. Scene_update demoTable landScene 0 = Some s2 \<and>
         entities s2 ! 1 = (''f'', thinPlatform) \<and>
         entities s2 ! 0 = (''p'', hoverPlayer\<lparr>ypos := 98, velocityY := 0, onGround := True\<rparr>)"
    by blast
  have h: "behaviors hoverPlayer = []" "behaviors thinPlatform = []"
    "ypos hoverPlayer = 95" "velocityY hoverPlayer = 5"
    by (simp_all add: hoverPlayer_def fallingPlayer_def thinPlatform_def blankEntity_def)
  from e h b d landScene_facts(3,2) x show ?thesis
    by (intro conjI)
qed

theorem Scene_update_zero_delta_counterexample:
  "positions loneScene = [(''p'', 100, 100)] \<and>
   map_option positions (Scene_update demoTable loneScene 0) = Some [(''p'', 100, 211 / 2)]"
  by code_simp

section \<open>Engine: loading a level\<close>

lemma loadLevel_counters:
  "score (loadLevel gen g levelIndex) = score g \<and>
   collectedItems (loadLevel gen g levelIndex) = collectedItems g \<and>
   currentLevelIndex (loadLevel gen g levelIndex) = currentLevelIndex g \<and>
   levelTransitioning (loadLevel gen g levelIndex) = levelTransitioning g \<and>
   gameData (loadLevel gen g levelIndex) = gameData g"
  by (simp add: loadLevel_def Let_def split: option.splits)

text \<open>
  C3 (as the code has it). For a level index beyond the end of the declared level list,
  \<^verbatim>\<open>loadLevel\<close> logs the error and builds nothing, and score, counters, level index and
  background stay as they were; but the active scene has been cleared before the check, so
  it is left empty.
\<close>

theorem loadLevel_invalid_index:
  assumes "activeScene g = Some sc"
    and "world (gameData g) = Some w" and "levels w = Some ls" and "length ls \<le> levelIndex"
  shows "console (loadLevel gen g levelIndex) = console g @ [LevelDoesNotExist levelIndex] \<and>
         activeScene (loadLevel gen g levelIndex) = Some (clear sc) \<and>
         entities (clear sc) = [] \<and> entitiesToAdd (clear sc) = [] \<and> entitiesToRemove (clear sc) = [] \<and>
         entityKeys (loadLevel gen g levelIndex) = [] \<and>
         score (loadLevel gen g levelIndex) = score g \<and>
         collectedItems (loadLevel gen g levelIndex) = collectedItems g \<and>
         totalCollectibles (loadLevel gen g levelIndex) = totalCollectibles g \<and>
         currentLevelIndex (loadLevel gen g levelIndex) = currentLevelIndex g \<and>
         renderer (loadLevel gen g levelIndex) = renderer g"
proof -
  from assms(2,3,4) have "levelAt (gameData g) levelIndex = None"
    by (simp add: levelAt_def)
  with assms(1) show ?thesis
    by (simp add: loadLevel_def Let_def clear_def entityKeys_def)
qed

lemma levelOne_facts:
  "activeScene levelOne \<noteq> None"
  "gameData levelOne = demoParameters"
  "entityKeys levelOne = [''entity_'', ''entity_i'', ''entity_ii'', ''entity_iii'']"
  "entityKeys (loadLevel demoGen levelOne 2) = []"
  "console levelOne = [LoadingLevel 0 (Some ''One'')]"
  by code_simp+

theorem loadLevel_invalid_index_witness:
  "activeScene levelOne \<noteq> None \<and> world (gameData levelOne) = Some demoWorld \<and>
   levels demoWorld = Some demoLevels \<and> length demoLevels \<le> 2 \<and>
   console (loadLevel demoGen levelOne 2) = [LoadingLevel 0 (Some ''One''), LevelDoesNotExist 2] \<and>
   entityKeys (loadLevel demoGen levelOne 2) = [] \<and>
   score (loadLevel demoGen levelOne 2) = score levelOne"
proof -
  obtain sc where sc: "activeScene levelOne = Some sc"
    using levelOne_facts(1) by blast
  have w: "world (gameData levelOne) = Some demoWorld"
    by (simp add: levelOne_facts(2) demoParameters_def)
  have l: "levels demoWorld = Some demoLevels" "length demoLevels \<le> 2"
    by (simp_all add: demoWorld_def demoLevels_def)
  from loadLevel_invalid_index [OF sc w l, of demoGen] sc w l levelOne_facts(5) show ?thesis
    by simp
qed

theorem loadLevel_invalid_index_counterexample:
  "length demoLevels = 2 \<and> levelAt (gameData levelOne) 2 = None \<and>
   entityKeys levelOne = [''entity_'', ''entity_i'', ''entity_ii'', ''entity_iii''] \<and>
   entityKeys (loadLevel demoGen levelOne 2) = []"
  by code_simp

text \<open>
  C6 (as the code has it). \<^verbatim>\<open>loadLevel\<close> writes neither the score nor the collected-items
  counter: both are after the call what they were before it, whatever the index. For a
  valid index and an active scene it sets the total-collectibles count to the number of
  collectibles that the parameters declare, and leaves it as it was when they declare none.
  So both counters persist on the way from one level to the next (the timer left by
  \<^verbatim>\<open>goToNextLevel\<close>); they are reset, together, only by \<^verbatim>\<open>initializeEntities\<close> at the start
  of a run and by the restart handler.
\<close>

theorem loadLevel_counters_persist:
  "score (loadLevel gen g levelIndex) = score g \<and>
   collectedItems (loadLevel gen g levelIndex) = collectedItems g \<and>
   (activeScene g \<noteq> None \<and> levelAt (gameData g) levelIndex \<noteq> None \<longrightarrow>
      totalCollectibles (loadLevel gen g levelIndex) =
        (case collectibles (gameData g) of
           None \<Rightarrow> totalCollectibles g
         | Some cs \<Rightarrow> if cs \<noteq> [] then length cs else totalCollectibles g)) \<and>
   score (nextLevelTimer gen g) = score g \<and>
   collectedItems (nextLevelTimer gen g) = collectedItems g \<and>
   (activeScene g \<noteq> None \<longrightarrow>
      score (initializeEntities gen g) = 0 \<and> collectedItems (initializeEntities gen g) = 0) \<and>
   (restartListener g \<longrightarrow>
      score (restartHandler gen g) = 0 \<and> collectedItems (restartHandler gen g) = 0)"
proof -
  have t: "activeScene g \<noteq> None \<and> levelAt (gameData g) levelIndex \<noteq> None \<longrightarrow>
      totalCollectibles (loadLevel gen g levelIndex) =
        (case collectibles (gameData g) of
           None \<Rightarrow> totalCollectibles g
         | Some cs \<Rightarrow> if cs \<noteq> [] then length cs else totalCollectibles g)"
    by (auto simp: loadLevel_def Let_def split: option.splits)
  have n: "score (nextLevelTimer gen g) = score g"
    "collectedItems (nextLevelTimer gen g) = collectedItems g"
    by (simp_all add: nextLevelTimer_def loadLevel_counters split: option.splits)
  have i: "activeScene g \<noteq> None \<longrightarrow>
      score (initializeEntities gen g) = 0 \<and> collectedItems (initializeEntities gen g) = 0"
    by (auto simp: initializeEntities_def loadLevel_counters)
  have r: "restartListener g \<longrightarrow>
      score (restartHandler gen g) = 0 \<and> collectedItems (restartHandler gen g) = 0"
    by (simp add: restartHandler_def loadLevel_counters)
  from loadLevel_counters [of gen g levelIndex] t n i r show ?thesis
    by (intro conjI) simp_all
qed

lemma shelf_facts:
  "activeScene shelfPlayed \<noteq> None"
  "levelAt (gameData shelfPlayed) 1 \<noteq> None"
  "gameData shelfPlayed = shelfParameters"
  "length (case collectibles shelfParameters of None \<Rightarrow> [] | Some cs \<Rightarrow> cs) = 1"
  "score shelfPlayed = 10" "collectedItems shelfPlayed = 1" "totalCollectibles shelfPlayed = 1"
  "restartListener (shelfPlayed\<lparr>restartListener := True\<rparr>)"
  by code_simp+

theorem loadLevel_counters_persist_witness:
  "score shelfPlayed = 10 \<and> collectedItems shelfPlayed = 1 \<and>
   score (loadLevel demoGen shelfPlayed 1) = 10 \<and>
   collectedItems (loadLevel demoGen shelfPlayed 1) = 1 \<and>
   totalCollectibles (loadLevel demoGen shelfPlayed 1) = 1 \<and>
   score (nextLevelTimer demoGen shelfPlayed) = 10 \<and>
   collectedItems (nextLevelTimer demoGen shelfPlayed) = 1 \<and>
   score (initializeEntities demoGen shelfPlayed) = 0 \<and>
   collectedItems (initializeEntities demoGen shelfPlayed) = 0 \<and>
   score (restartHandler demoGen (shelfPlayed\<lparr>restartListener := True\<rparr>)) = 0 \<and>
   collectedItems (restartHandler demoGen (shelfPlayed\<lparr>restartListener := True\<rparr>)) = 0"
proof -
  note f = shelf_facts
  obtain c where c: "collectibles (gameData shelfPlayed) = Some [c]"
    by (simp add: f(3) shelfParameters_def)
  from loadLevel_counters_persist [of demoGen shelfPlayed 1] f(1,2,5,6,7) c
  have a: "score (loadLevel demoGen shelfPlayed 1) = 10"
    "collectedItems (loadLevel demoGen shelfPlayed 1) = 1"
    "totalCollectibles (loadLevel demoGen shelfPlayed 1) = 1"
    "score (nextLevelTimer demoGen shelfPlayed) = 10"
    "collectedItems (nextLevelTimer demoGen shelfPlayed) = 1"
    "score (initializeEntities demoGen shelfPlayed) = 0"
    "collectedItems (initializeEntities demoGen shelfPlayed) = 0"
    by simp_all
  from loadLevel_counters_persist [of demoGen "shelfPlayed\<lparr>restartListener := True\<rparr>" 1] f(8)
  have b: "score (restartHandler demoGen (shelfPlayed\<lparr>restartListener := True\<rparr>)) = 0"
    "collectedItems (restartHandler demoGen (shelfPlayed\<lparr>restartListener := True\<rparr>)) = 0"
    by simp_all
  from f(5,6) a b show ?thesis
    by (intro conjI)
qed

theorem loadLevel_collectedItems_counterexample:
  "map_option positions (activeScene shelfStart) =
     Some [(''entity_'', 100, 385), (''entity_i'', 130, 360), (''entity_ii'', 50, 400)] \<and>
   score shelfStart = 0 \<and> collectedItems shelfStart = 0 \<and>
   map_option positions (activeScene shelfLanded) =
     Some [(''entity_'', 100, 368), (''entity_i'', 130, 360), (''entity_ii'', 50, 400)] \<and>
   fst (playerRules shelfLanded) = Returned \<and>
   score shelfPlayed = 10 \<and> collectedItems shelfPlayed = 1 \<and>
   levelAt (gameData shelfPlayed) 1 = Some (demoLevels ! 1) \<and>
   score (loadLevel demoGen shelfPlayed 1) = 10 \<and>
   collectedItems (loadLevel demoGen shelfPlayed 1) = 1 \<and>
   totalCollectibles (loadLevel demoGen shelfPlayed 1) = 1"
  by code_simp

section \<open>Engine: enemy contact, level completion and level exit\<close>

lemma entityAt_modifyEntity:
  "entityAt (modifyEntity k f g) j = (if j = k then map_option f (entityAt g k) else entityAt g j)"
  by (auto simp: entityAt_def modifyEntity_def map_of_map_entry split: option.splits)

lemma modifyEntity_frame:
  "score (modifyEntity k f g) = score g"
  "collectedItems (modifyEntity k f g) = collectedItems g"
  "currentLevelIndex (modifyEntity k f g) = currentLevelIndex g"
  "levelTransitioning (modifyEntity k f g) = levelTransitioning g"
  "gameData (modifyEntity k f g) = gameData g"
  "soundManager (modifyEntity k f g) = soundManager g"
  "entityKeys (modifyEntity k f g) = entityKeys g"
  by (simp_all add: modifyEntity_def entityKeys_def keys_map_entry split: option.splits)

lemma playSound_frame:
  "score (playSound g sid) = score g"
  "collectedItems (playSound g sid) = collectedItems g"
  "currentLevelIndex (playSound g sid) = currentLevelIndex g"
  "levelTransitioning (playSound g sid) = levelTransitioning g"
  "gameData (playSound g sid) = gameData g"
  "activeScene (playSound g sid) = activeScene g"
  "entityAt (playSound g sid) k = entityAt g k"
  by (simp_all add: playSound_def entityAt_def split: option.splits)

lemma entityAt_updates:
  "entityAt (g\<lparr>score := sc\<rparr>) k = entityAt g k"
  "entityAt (g\<lparr>collectedItems := n\<rparr>) k = entityAt g k"
  "entityAt (g\<lparr>console := c\<rparr>) k = entityAt g k"
  "entityAt (g\<lparr>levelTransitioning := b\<rparr>) k = entityAt g k"
  by (simp_all add: entityAt_def)

lemma andThen_cases:
  assumes "andThen r f = (out, g')"
  shows "(\<exists>m. out = Threw m \<and> g' = snd r) \<or> (fst r = Returned \<and> f (snd r) = (out, g'))"
proof (cases r)
  case (Pair o1 g1)
  with assms show ?thesis
    by (cases o1) (auto simp: andThen_def)
qed

lemma forEachKey_invariant:
  assumes step: "\<And>g k. P g \<Longrightarrow> P (snd (f g k))"
  shows "P g \<Longrightarrow> P (snd (forEachKey f ks g))"
proof (induction ks arbitrary: g)
  case Nil
  then show ?case by simp
next
  case (Cons k ks)
  obtain o1 g1 where r: "f g k = (o1, g1)" by (cases "f g k")
  from step [OF Cons.prems, of k] r have p1: "P g1" by simp
  show ?case
  proof (cases o1)
    case Returned
    with r Cons.IH [OF p1] show ?thesis by (simp add: andThen_def)
  next
    case (Threw m)
    with r p1 show ?thesis by (simp add: andThen_def)
  qed
qed

lemma checkLevelCompletion_unchanged:
  assumes "checkLevelCompletion g = (out, g')"
  shows "currentLevelIndex g' = currentLevelIndex g \<and> levelTransitioning g' = levelTransitioning g \<and>
         score g' = score g \<and> collectedItems g' = collectedItems g \<and>
         activeScene g' = activeScene g \<and> gameData g' = gameData g \<and>
         pendingTimer g' = pendingTimer g \<and> gameCompleted g' = gameCompleted g"
  using assms
  by (auto simp: checkLevelCompletion_def Let_def playSound_def split: option.splits if_splits)

lemma modifyEntity_gameData_lt:
  "levelTransitioning (modifyEntity k f g) = levelTransitioning g \<and>
   gameData (modifyEntity k f g) = gameData g"
  by (simp add: modifyEntity_frame)

lemma resetPlayer_keeps:
  "levelTransitioning (snd (resetPlayer pk g)) = levelTransitioning g \<and>
   gameData (snd (resetPlayer pk g)) = gameData g"
  by (simp add: resetPlayer_def Let_def modifyEntity_frame playSound_frame split: option.splits)

lemma collectibleRule_keeps:
  "levelTransitioning (snd (collectibleRule pk g ck)) = levelTransitioning g \<and>
   gameData (snd (collectibleRule pk g ck)) = gameData g"
proof -
  have c: "levelTransitioning (snd (checkLevelCompletion h)) = levelTransitioning h \<and>
           gameData (snd (checkLevelCompletion h)) = gameData h" for h
    using checkLevelCompletion_unchanged [of h "fst (checkLevelCompletion h)" "snd (checkLevelCompletion h)"]
    by simp
  show ?thesis
    by (simp add: collectibleRule_def Let_def c modifyEntity_frame playSound_frame
        split: option.splits jsval.splits)
qed

lemma enemyRule_keeps:
  "levelTransitioning (snd (enemyRule pk g ek)) = levelTransitioning g \<and>
   gameData (snd (enemyRule pk g ek)) = gameData g"
  by (simp add: enemyRule_def Let_def resetPlayer_keeps modifyEntity_frame playSound_frame
      split: option.splits)

lemma fallRule_keeps:
  "levelTransitioning (snd (fallRule pk g)) = levelTransitioning g \<and>
   gameData (snd (fallRule pk g)) = gameData g"
  by (simp add: fallRule_def resetPlayer_keeps split: option.splits)

lemma goToNextLevel_scene:
  "activeScene (snd (goToNextLevel g)) = activeScene g"
  by (simp add: goToNextLevel_def Let_def split: option.splits)

lemma exitRule_only:
  assumes "\<not> levelTransitioning g" and "levelTransitioning (snd (exitRule pk g))"
  shows "\<exists>pl w wd. entityAt (snd (exitRule pk g)) pk = Some pl \<and> world (gameData g) = Some w \<and>
           worldWidth w = Some wd \<and> xpos pl > wd - width pl * 2"
  using assms
  by (auto simp: exitRule_def entityAt_def goToNextLevel_scene split: option.splits if_splits)

lemma exitRule_fires:
  assumes "entityAt g pk = Some pl" and "world (gameData g) = Some w" and "worldWidth w = Some wd"
    and "\<not> levelTransitioning g"
  shows "levelTransitioning (snd (exitRule pk g)) \<longleftrightarrow> xpos pl > wd - width pl * 2"
  using assms
  by (simp add: exitRule_def goToNextLevel_def Let_def split: option.splits)

lemma playerRules_only_exit:
  assumes "playerRules g = (out, g')" and "\<not> levelTransitioning g" and "levelTransitioning g'"
  shows "\<exists>sc pk ks pl w wd.
           activeScene g = Some sc \<and> getEntitiesByTag sc ''player'' = pk # ks \<and>
           entityAt g' pk = Some pl \<and> world (gameData g) = Some w \<and> worldWidth w = Some wd \<and>
           xpos pl > wd - width pl * 2"
proof -
  let ?P = "\<lambda>h. levelTransitioning h = levelTransitioning g \<and> gameData h = gameData g"
  from assms obtain sc where sc: "activeScene g = Some sc"
    by (cases "activeScene g") (auto simp: playerRules_def)
  from assms sc obtain pk ks where pk: "getEntitiesByTag sc ''player'' = pk # ks"
    by (cases "getEntitiesByTag sc ''player''") (auto simp: playerRules_def)
  let ?r1 = "forEachKey (collectibleRule pk) (getEntitiesByTag sc ''collectible'') g"
  let ?g1 = "snd ?r1"
  let ?es = "case activeScene ?g1 of None \<Rightarrow> [] | Some sc1 \<Rightarrow> getEntitiesByTag sc1 ''enemy''"
  let ?r2 = "forEachKey (enemyRule pk) ?es ?g1"
  let ?g2 = "snd ?r2"
  let ?r3 = "fallRule pk ?g2"
  let ?g3 = "snd ?r3"
  have p1: "?P ?g1"
    by (rule forEachKey_invariant [where P = ?P]) (simp_all add: collectibleRule_keeps)
  have p2: "?P ?g2"
    by (rule forEachKey_invariant [where P = ?P]) (simp_all add: enemyRule_keeps p1)
  have p3: "?P ?g3"
    using p2 by (simp add: fallRule_keeps)
  from assms(1) sc pk have a1: "andThen ?r1 (\<lambda>g1. andThen
                    (forEachKey (enemyRule pk)
                       (case activeScene g1 of
                          None \<Rightarrow> []
                        | Some sc1 \<Rightarrow> getEntitiesByTag sc1 ''enemy'') g1)
                    (\<lambda>g2. andThen (fallRule pk g2) (exitRule pk))) = (out, g')"
    by (simp add: playerRules_def)
  from andThen_cases [OF a1] assms(2,3) p1
  have a2: "andThen ?r2 (\<lambda>g2. andThen (fallRule pk g2) (exitRule pk)) = (out, g')"
    by auto
  from andThen_cases [OF a2] assms(2,3) p2
  have a3: "andThen ?r3 (exitRule pk) = (out, g')"
    by auto
  from andThen_cases [OF a3] assms(2,3) p3
  have a4: "exitRule pk ?g3 = (out, g')"
    by auto
  from p3 assms(2) have "\<not> levelTransitioning ?g3" by simp
  from exitRule_only [OF this, of pk] a4 assms(3) p3 obtain pl w wd where
    "entityAt g' pk = Some pl" "world (gameData g) = Some w" "worldWidth w = Some wd"
    "xpos pl > wd - width pl * 2"
    by auto
  with sc pk show ?thesis by blast
qed

text \<open>
  C10. \<^verbatim>\<open>checkLevelCompletion\<close> leaves the level index, the transition flag, the score,
  the collected-items counter and the active scene as they were, whether it returns or
  throws; it only logs and asks for a sound. In the rule pass the transition flag is raised
  by the exit rule alone: if the pass raises it, the player's \<open>x\<close> exceeds the world's width
  minus twice the player's width, and the exit rule raises it exactly then.
\<close>

theorem checkLevelCompletion_frame:
  "(\<forall>out g'. checkLevelCompletion g = (out, g') \<longrightarrow>
       currentLevelIndex g' = currentLevelIndex g \<and> levelTransitioning g' = levelTransitioning g \<and>
       score g' = score g \<and> collectedItems g' = collectedItems g \<and>
       activeScene g' = activeScene g \<and> pendingTimer g' = pendingTimer g \<and>
       gameCompleted g' = gameCompleted g) \<and>
   (\<forall>out g'. playerRules g = (out, g') \<and> \<not> levelTransitioning g \<and> levelTransitioning g' \<longrightarrow>
       (\<exists>sc pk ks pl w wd.
           activeScene g = Some sc \<and> getEntitiesByTag sc ''player'' = pk # ks \<and>
           entityAt g' pk = Some pl \<and> world (gameData g) = Some w \<and> worldWidth w = Some wd \<and>
           xpos pl > wd - width pl * 2)) \<and>
   (\<forall>pk pl w wd.
       entityAt g pk = Some pl \<and> world (gameData g) = Some w \<and> worldWidth w = Some wd \<and>
       \<not> levelTransitioning g \<longrightarrow>
       (levelTransitioning (snd (exitRule pk g)) \<longleftrightarrow> xpos pl > wd - width pl * 2))"
proof -
  have 1: "\<forall>out g'. checkLevelCompletion g = (out, g') \<longrightarrow>
       currentLevelIndex g' = currentLevelIndex g \<and> levelTransitioning g' = levelTransitioning g \<and>
       score g' = score g \<and> collectedItems g' = collectedItems g \<and>
       activeScene g' = activeScene g \<and> pendingTimer g' = pendingTimer g \<and>
       gameCompleted g' = gameCompleted g"
    using checkLevelCompletion_unchanged by blast
  have 2: "\<forall>out g'. playerRules g = (out, g') \<and> \<not> levelTransitioning g \<and> levelTransitioning g' \<longrightarrow>
       (\<exists>sc pk ks pl w wd.
           activeScene g = Some sc \<and> getEntitiesByTag sc ''player'' = pk # ks \<and>
           entityAt g' pk = Some pl \<and> world (gameData g) = Some w \<and> worldWidth w = Some wd \<and>
           xpos pl > wd - width pl * 2)"
    using playerRules_only_exit by blast
  have 3: "\<forall>pk pl w wd.
       entityAt g pk = Some pl \<and> world (gameData g) = Some w \<and> worldWidth w = Some wd \<and>
       \<not> levelTransitioning g \<longrightarrow>
       (levelTransitioning (snd (exitRule pk g)) \<longleftrightarrow> xpos pl > wd - width pl * 2)"
    using exitRule_fires by blast
  from 1 2 3 show ?thesis
    by (intro conjI)
qed

lemma rightEdge_facts:
  "fst (checkLevelCompletion rightEdge) = Returned"
  "console (snd (checkLevelCompletion rightEdge)) = console rightEdge @ [LevelComplete]"
  "score rightEdge = 10" "collectedItems rightEdge = 1" "currentLevelIndex rightEdge = 0"
  "\<not> levelTransitioning rightEdge"
  "levelTransitioning (snd (playerRules rightEdge))"
  "map_option (\<lambda>sc. getEntitiesByTag sc ''player'') (activeScene rightEdge) = Some [''entity_'']"
  "world (gameData rightEdge) = Some demoWorld"
  "worldWidth demoWorld = Some 800"
  "map_option xpos (entityAt rightEdge ''entity_'') = Some 750"
  by code_simp+

theorem checkLevelCompletion_frame_witness:
  "fst (checkLevelCompletion rightEdge) = Returned \<and>
   console (snd (checkLevelCompletion rightEdge)) = console rightEdge @ [LevelComplete] \<and>
   currentLevelIndex (snd (checkLevelCompletion rightEdge)) = 0 \<and>
   \<not> levelTransitioning (snd (checkLevelCompletion rightEdge)) \<and>
   score (snd (checkLevelCompletion rightEdge)) = 10 \<and>
   collectedItems (snd (checkLevelCompletion rightEdge)) = 1 \<and>
   activeScene (snd (checkLevelCompletion rightEdge)) = activeScene rightEdge \<and>
   \<not> levelTransitioning rightEdge \<and> levelTransitioning (snd (playerRules rightEdge)) \<and>
   (\<exists>pl. entityAt (snd (playerRules rightEdge)) ''entity_'' = Some pl \<and>
         xpos pl > 800 - width pl * 2) \<and>
   levelTransitioning (snd (exitRule ''entity_'' rightEdge))"
proof -
  note f = rightEdge_facts
  note t = checkLevelCompletion_frame [of rightEdge]
  from t have 1: "currentLevelIndex (snd (checkLevelCompletion rightEdge)) = currentLevelIndex rightEdge \<and>
      levelTransitioning (snd (checkLevelCompletion rightEdge)) = levelTransitioning rightEdge \<and>
      score (snd (checkLevelCompletion rightEdge)) = score rightEdge \<and>
      collectedItems (snd (checkLevelCompletion rightEdge)) = collectedItems rightEdge \<and>
      activeScene (snd (checkLevelCompletion rightEdge)) = activeScene rightEdge"
    by (metis prod.collapse)
  from t f(6,7) obtain sc pk ks pl w wd where
    2: "activeScene rightEdge = Some sc" "getEntitiesByTag sc ''player'' = pk # ks"
      "entityAt (snd (playerRules rightEdge)) pk = Some pl" "world (gameData rightEdge) = Some w"
      "worldWidth w = Some wd" "xpos pl > wd - width pl * 2"
    by (metis prod.collapse)
  from 2(1,2) f(8) have pk: "pk = ''entity_''" by simp
  from 2(4,5) f(9,10) have wd: "wd = 800" by simp
  from 2(3,6) pk wd have 3: "\<exists>pl. entityAt (snd (playerRules rightEdge)) ''entity_'' = Some pl \<and>
         xpos pl > 800 - width pl * 2"
    by blast
  from f(11) obtain p0 where p0: "entityAt rightEdge ''entity_'' = Some p0" "xpos p0 = 750"
    by auto
  have "map_option width (entityAt rightEdge ''entity_'') = Some 32"
    by code_simp
  with p0 have w0: "width p0 = 32" by simp
  from t p0(1) f(9,10,6) have
    "levelTransitioning (snd (exitRule ''entity_'' rightEdge)) \<longleftrightarrow> xpos p0 > 800 - width p0 * 2"
    by blast
  with p0(2) w0 have 4: "levelTransitioning (snd (exitRule ''entity_'' rightEdge))"
    by simp
  from 1 3 4 f show ?thesis
    by simp
qed

lemma forEachKey_append:
  "forEachKey f (xs @ ys) g = andThen (forEachKey f xs g) (forEachKey f ys)"
proof (induction xs arbitrary: g)
  case Nil
  show ?case by (simp add: andThen_def)
next
  case (Cons x xs)
  obtain o1 g1 where r: "f g x = (o1, g1)" by (cases "f g x")
  show ?case
  proof (cases o1)
    case Returned
    with r Cons.IH [of g1] show ?thesis by (simp add: andThen_def)
  next
    case (Threw m)
    with r show ?thesis by (simp add: andThen_def)
  qed
qed

lemma forEachKey_skip:
  "(\<forall>k \<in> set ks. f g k = (Returned, g)) \<Longrightarrow> forEachKey f ks g = (Returned, g)"
  by (induction ks) (simp_all add: andThen_def)

lemma enemyRule_no_contact: "\<not> contact g pk k \<Longrightarrow> enemyRule pk g k = (Returned, g)"
  by (auto simp: contact_def enemyRule_def split: option.splits)

lemma collectibleRule_no_contact: "\<not> contact g pk k \<Longrightarrow> collectibleRule pk g k = (Returned, g)"
  by (auto simp: contact_def collectibleRule_def split: option.splits)

lemma resetPlayer_result:
  assumes "player (gameData g) = Some pp" and "entityAt g pk = Some p"
  shows "\<exists>g'. resetPlayer pk g = (Returned, g') \<and> score g' = score g \<and> gameData g' = gameData g \<and>
           (\<forall>k. k \<noteq> pk \<longrightarrow> entityAt g' k = entityAt g k) \<and>
           entityAt g' pk = Some (spawned pp p)"
  using assms
  by (simp add: resetPlayer_def Let_def entityAt_modifyEntity modifyEntity_frame playSound_frame
      spawned_def)

lemma spawned_idem: "spawned pp (spawned pp p) = spawned pp p"
  by (simp add: spawned_def)

lemma enemy_loop_calm:
  assumes "player (gameData g) = Some pp" and "entityAt g pk = Some p" and "velocityY p \<le> 0"
    and "pk \<notin> set ks"
  shows "\<exists>g'. forEachKey (enemyRule pk) ks g = (Returned, g') \<and> score g' = score g \<and>
           gameData g' = gameData g \<and>
           (\<forall>k. k \<noteq> pk \<longrightarrow> entityAt g' k = entityAt g k) \<and>
           entityAt g' pk = Some (if \<exists>k \<in> set ks. contact g pk k then spawned pp p else p)"
  using assms
proof (induction ks arbitrary: g p)
  case Nil
  then show ?case by simp
next
  case (Cons k ks)
  from Cons.prems(4) have kp: "k \<noteq> pk" and nin: "pk \<notin> set ks" by auto
  show ?case
  proof (cases "contact g pk k")
    case False
    then have s: "enemyRule pk g k = (Returned, g)" by (rule enemyRule_no_contact)
    from Cons.IH [OF Cons.prems(1,2,3) nin] obtain g' where
      g': "forEachKey (enemyRule pk) ks g = (Returned, g')" "score g' = score g"
        "gameData g' = gameData g" "\<forall>k. k \<noteq> pk \<longrightarrow> entityAt g' k = entityAt g k"
        "entityAt g' pk = Some (if \<exists>k \<in> set ks. contact g pk k then spawned pp p else p)"
      by blast
    from False g' s show ?thesis
      by (simp add: andThen_def)
  next
    case True
    then obtain e where e: "entityAt g k = Some e" "active e" "checkCollision p e"
      using Cons.prems(2) by (auto simp: contact_def split: option.splits)
    from resetPlayer_result [OF Cons.prems(1,2)] obtain g1 where
      g1: "resetPlayer pk g = (Returned, g1)" "score g1 = score g" "gameData g1 = gameData g"
        "\<forall>k. k \<noteq> pk \<longrightarrow> entityAt g1 k = entityAt g k"
        "entityAt g1 pk = Some (spawned pp p)"
      by blast
    from e Cons.prems(2,3) g1(1) have s: "enemyRule pk g k = (Returned, g1)"
      by (simp add: enemyRule_def)
    have v: "velocityY (spawned pp p) \<le> 0" by (simp add: spawned_def)
    from g1(3) Cons.prems(1) have pp1: "player (gameData g1) = Some pp" by simp
    from Cons.IH [OF pp1 g1(5) v nin] obtain g' where
      g': "forEachKey (enemyRule pk) ks g1 = (Returned, g')" "score g' = score g1"
        "gameData g' = gameData g1" "\<forall>k. k \<noteq> pk \<longrightarrow> entityAt g' k = entityAt g1 k"
        "entityAt g' pk =
           Some (if \<exists>k \<in> set ks. contact g1 pk k then spawned pp (spawned pp p) else spawned pp p)"
      by blast
    from g'(5) have "entityAt g' pk = Some (spawned pp p)"
      by (simp add: spawned_idem)
    with True g' g1 s show ?thesis
      by (simp add: andThen_def)
  qed
qed

lemma fallRule_result:
  assumes "player (gameData g) = Some pp" and "entityAt g pk = Some p"
    and "world (gameData g) = Some w"
  shows "\<exists>g'. fallRule pk g = (Returned, g') \<and> score g' = score g \<and> gameData g' = gameData g \<and>
           (\<forall>k. k \<noteq> pk \<longrightarrow> entityAt g' k = entityAt g k) \<and>
           entityAt g' pk =
             Some (if \<exists>h. worldHeight w = Some h \<and> ypos p > h then spawned pp p else p)"
proof (cases "\<exists>h. worldHeight w = Some h \<and> ypos p > h")
  case True
  with assms(2,3) have "fallRule pk g = resetPlayer pk g"
    by (auto simp: fallRule_def)
  with resetPlayer_result [OF assms(1,2)] True show ?thesis
    by auto
next
  case False
  with assms(2,3) have "fallRule pk g = (Returned, g)"
    by (auto simp: fallRule_def split: option.splits)
  with False assms(2) show ?thesis
    by auto
qed

lemma exitRule_entities:
  "score (snd (exitRule pk g)) = score g \<and> entityAt (snd (exitRule pk g)) k = entityAt g k"
  by (simp add: exitRule_def goToNextLevel_def Let_def entityAt_def split: option.splits)

lemma enemyRule_stomp:
  assumes "entityAt g pk = Some pl" and "entityAt g ek = Some enemy" and "pk \<noteq> ek"
    and "active enemy" and "checkCollision pl enemy"
    and "velocityY pl > 0 \<and> ypos pl + height pl < ypos enemy + height enemy / 2"
  shows "\<exists>g'. enemyRule pk g ek = (Returned, g') \<and> score g' = score g + 50 \<and>
           gameData g' = gameData g \<and>
           (\<forall>k. k \<noteq> pk \<and> k \<noteq> ek \<longrightarrow> entityAt g' k = entityAt g k) \<and>
           entityAt g' ek = Some (enemy\<lparr>active := False, visible := False\<rparr>) \<and>
           entityAt g' pk = Some (pl\<lparr>velocityY := - 7\<rparr>)"
  using assms
  by (simp add: enemyRule_def Let_def entityAt_modifyEntity modifyEntity_frame playSound_frame
      entityAt_updates)

lemma enemyRule_reset:
  assumes "entityAt g pk = Some pl" and "entityAt g ek = Some enemy"
    and "active enemy" and "checkCollision pl enemy"
    and "\<not> (velocityY pl > 0 \<and> ypos pl + height pl < ypos enemy + height enemy / 2)"
  shows "enemyRule pk g ek = resetPlayer pk g"
  using assms by (auto simp: enemyRule_def)

lemma getEntitiesByTag_distinct:
  "distinct (map fst (entities sc)) \<Longrightarrow> distinct (getEntitiesByTag sc t)"
  unfolding getEntitiesByTag_def by (rule distinct_map_filter)


lemma rules_after_contact:
  assumes "player (gameData g1) = Some pp" and "world (gameData g1) = Some w"
    and "entityAt g1 pk = Some p1" and "velocityY p1 \<le> 0" and "pk \<notin> set post"
  shows "\<exists>gF. snd (andThen (forEachKey (enemyRule pk) post g1)
                     (\<lambda>g2. andThen (fallRule pk g2) (exitRule pk))) = gF \<and>
           score gF = score g1 \<and>
           (\<forall>k. k \<noteq> pk \<longrightarrow> entityAt gF k = entityAt g1 k) \<and>
           entityAt gF pk =
             Some (if (\<exists>k \<in> set post. contact g1 pk k) \<or> (\<exists>h. worldHeight w = Some h \<and> ypos p1 > h)
                   then spawned pp p1 else p1)"
proof -
  let ?C = "\<exists>k \<in> set post. contact g1 pk k"
  let ?p2 = "if ?C then spawned pp p1 else p1"
  from enemy_loop_calm [OF assms(1,3,4,5)] obtain g2 where
    g2: "forEachKey (enemyRule pk) post g1 = (Returned, g2)" "score g2 = score g1"
      "gameData g2 = gameData g1" "\<forall>k. k \<noteq> pk \<longrightarrow> entityAt g2 k = entityAt g1 k"
      "entityAt g2 pk = Some ?p2"
    by blast
  from g2(3) assms(1,2) have d: "player (gameData g2) = Some pp" "world (gameData g2) = Some w"
    by simp_all
  from fallRule_result [OF d(1) g2(5) d(2)] obtain g3 where
    g3: "fallRule pk g2 = (Returned, g3)" "score g3 = score g2"
      "\<forall>k. k \<noteq> pk \<longrightarrow> entityAt g3 k = entityAt g2 k"
      "entityAt g3 pk = Some (if \<exists>h. worldHeight w = Some h \<and> ypos ?p2 > h then spawned pp ?p2 else ?p2)"
    by blast
  have e: "(if \<exists>h. worldHeight w = Some h \<and> ypos ?p2 > h then spawned pp ?p2 else ?p2) =
           (if ?C \<or> (\<exists>h. worldHeight w = Some h \<and> ypos p1 > h) then spawned pp p1 else p1)"
  proof (cases ?C)
    case True
    then show ?thesis by (simp add: spawned_idem)
  next
    case False
    then show ?thesis by auto
  qed
  have "snd (andThen (forEachKey (enemyRule pk) post g1)
                     (\<lambda>g2. andThen (fallRule pk g2) (exitRule pk))) = snd (exitRule pk g3)"
    by (simp add: g2(1) g3(1) andThen_def)
  with g2 g3 e exitRule_entities [of pk g3] show ?thesis
    by simp
qed

lemma checkCollision_velocity:
  "checkCollision (p\<lparr>velocityY := v\<rparr>) e = checkCollision p e"
  by (simp add: checkCollision_def)

text \<open>
  C8 (as the code has it). Take a frame whose rule pass picks up no collectible, in a game
  whose parameters declare the player and the world, the player not being tagged as an
  enemy. The pass examines the enemies in scene order; let \<open>ek\<close> be the first active enemy
  that the player overlaps. If the player moves downward (\<open>velocityY > 0\<close>) and its bottom
  edge is above the vertical middle of \<open>ek\<close>, then after the pass \<open>ek\<close> is inactive and
  invisible and the score has grown by exactly 50; the player's \<open>velocityY\<close> is \<open>-7\<close>, its
  position unchanged, provided it overlaps no active enemy later in the list and is not
  below the world's height: otherwise the later contact (the player now moves upward) or
  the fall has put it back at the spawn position (\<^verbatim>\<open>startX || 100\<close>, \<^verbatim>\<open>startY || 100\<close>) with
  both velocities zero. On any other first contact the player is put back at the spawn
  position with both velocities zero, \<open>ek\<close> stays as it is, active, and the score is
  unchanged. In both cases every other enemy is left as it was: one pass defeats at most
  one enemy.
\<close>

theorem playerRules_enemy_contact:
  assumes sc: "activeScene g = Some sc" and dist: "distinct (map fst (entities sc))"
    and pk: "getEntitiesByTag sc ''player'' = pk # others"
    and nocoll: "\<forall>ck \<in> set (getEntitiesByTag sc ''collectible''). \<not> contact g pk ck"
    and eks: "getEntitiesByTag sc ''enemy'' = pre @ ek # post"
    and pne: "pk \<notin> set (getEntitiesByTag sc ''enemy'')"
    and first: "\<forall>k \<in> set pre. \<not> contact g pk k"
    and pl: "entityAt g pk = Some pl" and en: "entityAt g ek = Some enemy"
    and act: "active enemy" and col: "checkCollision pl enemy"
    and pp: "player (gameData g) = Some pp" and w: "world (gameData g) = Some w"
  shows "(velocityY pl > 0 \<and> ypos pl + height pl < ypos enemy + height enemy / 2 \<longrightarrow>
            entityAt (snd (playerRules g)) ek = Some (enemy\<lparr>active := False, visible := False\<rparr>) \<and>
            score (snd (playerRules g)) = score g + 50 \<and>
            entityAt (snd (playerRules g)) pk =
              Some (if (\<exists>k \<in> set post. contact g pk k) \<or>
                       (\<exists>h. worldHeight w = Some h \<and> ypos pl > h)
                    then spawned pp pl else pl\<lparr>velocityY := - 7\<rparr>)) \<and>
         (\<not> (velocityY pl > 0 \<and> ypos pl + height pl < ypos enemy + height enemy / 2) \<longrightarrow>
            entityAt (snd (playerRules g)) pk = Some (spawned pp pl) \<and>
            entityAt (snd (playerRules g)) ek = Some enemy \<and>
            score (snd (playerRules g)) = score g) \<and>
         (\<forall>k. k \<noteq> pk \<and> k \<noteq> ek \<longrightarrow> entityAt (snd (playerRules g)) k = entityAt g k)"
proof -
  let ?rest = "\<lambda>g2. andThen (fallRule pk g2) (exitRule pk)"
  from eks pne have ne: "pk \<noteq> ek" and npost: "pk \<notin> set post"
    by auto
  from getEntitiesByTag_distinct [OF dist, of "''enemy''"] eks have ekpost: "ek \<notin> set post"
    by auto
  have c: "forEachKey (collectibleRule pk) (getEntitiesByTag sc ''collectible'') g = (Returned, g)"
    using nocoll by (intro forEachKey_skip) (simp add: collectibleRule_no_contact)
  have p: "forEachKey (enemyRule pk) pre g = (Returned, g)"
    using first by (intro forEachKey_skip) (simp add: enemyRule_no_contact)
  have run: "playerRules g = andThen (enemyRule pk g ek) (\<lambda>g1. andThen (forEachKey (enemyRule pk) post g1) ?rest)"
    by (simp add: playerRules_def sc pk c eks forEachKey_append p andThen_def split: prod.splits outcome.splits)
  show ?thesis
  proof (cases "velocityY pl > 0 \<and> ypos pl + height pl < ypos enemy + height enemy / 2")
    case True
    from enemyRule_stomp [OF pl en ne act col True] obtain g1 where
      g1: "enemyRule pk g ek = (Returned, g1)" "score g1 = score g + 50" "gameData g1 = gameData g"
        "\<forall>k. k \<noteq> pk \<and> k \<noteq> ek \<longrightarrow> entityAt g1 k = entityAt g k"
        "entityAt g1 ek = Some (enemy\<lparr>active := False, visible := False\<rparr>)"
        "entityAt g1 pk = Some (pl\<lparr>velocityY := - 7\<rparr>)"
      by blast
    have d: "player (gameData g1) = Some pp" "world (gameData g1) = Some w"
      using g1(3) pp w by simp_all
    have v: "velocityY (pl\<lparr>velocityY := - 7\<rparr>) \<le> 0" by simp
    from rules_after_contact [OF d g1(6) v npost] have
      f: "score (snd (andThen (forEachKey (enemyRule pk) post g1) ?rest)) = score g1"
        "\<forall>k. k \<noteq> pk \<longrightarrow> entityAt (snd (andThen (forEachKey (enemyRule pk) post g1) ?rest)) k = entityAt g1 k"
        "entityAt (snd (andThen (forEachKey (enemyRule pk) post g1) ?rest)) pk =
           Some (if (\<exists>k \<in> set post. contact g1 pk k) \<or>
                    (\<exists>h. worldHeight w = Some h \<and> ypos (pl\<lparr>velocityY := - 7\<rparr>) > h)
                 then spawned pp (pl\<lparr>velocityY := - 7\<rparr>) else pl\<lparr>velocityY := - 7\<rparr>)"
      by simp_all
    have ct: "contact g1 pk k = contact g pk k" if "k \<in> set post" for k
    proof -
      from that npost ekpost have "k \<noteq> pk" "k \<noteq> ek" by auto
      with g1(4) have "entityAt g1 k = entityAt g k" by simp
      then show ?thesis
        by (simp add: contact_def g1(6) pl checkCollision_velocity split: option.splits)
    qed
    then have cs: "(\<exists>k \<in> set post. contact g1 pk k) = (\<exists>k \<in> set post. contact g pk k)"
      by auto
    have sp: "spawned pp (pl\<lparr>velocityY := - 7\<rparr>) = spawned pp pl"
      by (simp add: spawned_def)
    have fin: "snd (playerRules g) = snd (andThen (forEachKey (enemyRule pk) post g1) ?rest)"
      by (simp add: run g1(1) andThen_def)
    from f(3) cs sp have
      a: "entityAt (snd (playerRules g)) pk =
              Some (if (\<exists>k \<in> set post. contact g pk k) \<or>
                       (\<exists>h. worldHeight w = Some h \<and> ypos pl > h)
                    then spawned pp pl else pl\<lparr>velocityY := - 7\<rparr>)"
      unfolding fin by auto
    from f(2) ne g1(5) have b: "entityAt (snd (playerRules g)) ek = Some (enemy\<lparr>active := False, visible := False\<rparr>)"
      by (simp add: fin)
    from f(1) g1(2) have s: "score (snd (playerRules g)) = score g + 50"
      by (simp add: fin)
    from f(2) g1(4) have o: "\<forall>k. k \<noteq> pk \<and> k \<noteq> ek \<longrightarrow> entityAt (snd (playerRules g)) k = entityAt g k"
      by (simp add: fin)
    from True a b s o show ?thesis
      by simp
  next
    case False
    from resetPlayer_result [OF pp pl] enemyRule_reset [OF pl en act col False] obtain g1 where
      g1: "enemyRule pk g ek = (Returned, g1)" "score g1 = score g" "gameData g1 = gameData g"
        "\<forall>k. k \<noteq> pk \<longrightarrow> entityAt g1 k = entityAt g k"
        "entityAt g1 pk = Some (spawned pp pl)"
      by auto
    have d: "player (gameData g1) = Some pp" "world (gameData g1) = Some w"
      using g1(3) pp w by simp_all
    have v: "velocityY (spawned pp pl) \<le> 0" by (simp add: spawned_def)
    from rules_after_contact [OF d g1(5) v npost] have
      f: "score (snd (andThen (forEachKey (enemyRule pk) post g1) ?rest)) = score g1"
        "\<forall>k. k \<noteq> pk \<longrightarrow> entityAt (snd (andThen (forEachKey (enemyRule pk) post g1) ?rest)) k = entityAt g1 k"
        "entityAt (snd (andThen (forEachKey (enemyRule pk) post g1) ?rest)) pk = Some (spawned pp pl)"
      by (simp_all add: spawned_idem)
    have fin: "snd (playerRules g) = snd (andThen (forEachKey (enemyRule pk) post g1) ?rest)"
      by (simp add: run g1(1) andThen_def)
    from f g1 ne en have
      "entityAt (snd (playerRules g)) pk = Some (spawned pp pl)"
      "entityAt (snd (playerRules g)) ek = Some enemy"
      "score (snd (playerRules g)) = score g"
      "\<forall>k. k \<noteq> pk \<and> k \<noteq> ek \<longrightarrow> entityAt (snd (playerRules g)) k = entityAt g k"
      by (simp_all add: fin)
    with False show ?thesis
      by simp
  qed
qed

lemma stomp_scene_facts:
  "activeScene stompEngine = Some (sceneOf stompEngine)"
  "distinct (map fst (entities (sceneOf stompEngine)))"
  "getEntitiesByTag (sceneOf stompEngine) ''player'' = [''entity_'']"
  "getEntitiesByTag (sceneOf stompEngine) ''collectible'' = [''entity_ii'']"
  "getEntitiesByTag (sceneOf stompEngine) ''enemy'' = [''entity_i'']"
  "\<not> contact stompEngine ''entity_'' ''entity_ii''"
  "map_option (\<lambda>p. (xpos p, ypos p, width p, height p, velocityY p)) (entityAt stompEngine ''entity_'') =
     Some (300, 340, 32, 32, 5)"
  "map_option (\<lambda>e. (xpos e, ypos e, width e, height e, active e)) (entityAt stompEngine ''entity_i'') =
     Some (300, 368, 32, 32, True)"
  "player (gameData stompEngine) = Some demoPlayer"
  "world (gameData stompEngine) = Some demoWorld"
  "worldHeight demoWorld = Some 600"
  "score stompEngine = 0"
  by code_simp+

lemma twin_scene_facts:
  "activeScene twinEngine = Some (sceneOf twinEngine)"
  "distinct (map fst (entities (sceneOf twinEngine)))"
  "getEntitiesByTag (sceneOf twinEngine) ''player'' = [''entity_'']"
  "getEntitiesByTag (sceneOf twinEngine) ''collectible'' = [''entity_iii'']"
  "getEntitiesByTag (sceneOf twinEngine) ''enemy'' = [''entity_i'', ''entity_ii'']"
  "\<not> contact twinEngine ''entity_'' ''entity_iii''"
  "map_option (\<lambda>p. (xpos p, ypos p, width p, height p, velocityY p)) (entityAt twinEngine ''entity_'') =
     Some (300, 340, 32, 32, 5)"
  "map_option (\<lambda>e. (xpos e, ypos e, width e, height e, active e)) (entityAt twinEngine ''entity_i'') =
     Some (300, 368, 32, 32, True)"
  "player (gameData twinEngine) = Some demoPlayer"
  "world (gameData twinEngine) = Some demoWorld"
  "contact twinEngine ''entity_'' ''entity_ii''"
  "score twinEngine = 0"
  by code_simp+

lemma bump_scene_facts:
  "activeScene bumpEngine = Some (sceneOf bumpEngine)"
  "distinct (map fst (entities (sceneOf bumpEngine)))"
  "getEntitiesByTag (sceneOf bumpEngine) ''player'' = [''entity_'']"
  "getEntitiesByTag (sceneOf bumpEngine) ''collectible'' = [''entity_ii'']"
  "getEntitiesByTag (sceneOf bumpEngine) ''enemy'' = [''entity_i'']"
  "\<not> contact bumpEngine ''entity_'' ''entity_ii''"
  "map_option (\<lambda>p. (xpos p, ypos p, width p, height p, velocityY p)) (entityAt bumpEngine ''entity_'') =
     Some (280, 370, 32, 32, 5)"
  "map_option (\<lambda>e. (xpos e, ypos e, width e, height e, active e)) (entityAt bumpEngine ''entity_i'') =
     Some (300, 368, 32, 32, True)"
  "player (gameData bumpEngine) = Some demoPlayer"
  "world (gameData bumpEngine) = Some demoWorld"
  "score bumpEngine = 0"
  by code_simp+

lemma spawned_demoPlayer:
  "xpos (spawned demoPlayer p) = 100" "ypos (spawned demoPlayer p) = 100"
  "velocityX (spawned demoPlayer p) = 0" "velocityY (spawned demoPlayer p) = 0"
  by (simp_all add: spawned_def demoPlayer_def orNum_def)

theorem playerRules_enemy_contact_witness:
  "map_option (\<lambda>p. (xpos p, ypos p, velocityY p)) (entityAt stompEngine ''entity_'') = Some (300, 340, 5) \<and>
   map_option (\<lambda>e. (xpos e, ypos e, active e)) (entityAt stompEngine ''entity_i'') = Some (300, 368, True) \<and>
   map_option (\<lambda>e. (active e, visible e)) (entityAt (snd (playerRules stompEngine)) ''entity_i'') =
     Some (False, False) \<and>
   map_option (\<lambda>p. (xpos p, ypos p, velocityY p)) (entityAt (snd (playerRules stompEngine)) ''entity_'') =
     Some (300, 340, - 7) \<and>
   score (snd (playerRules stompEngine)) = 50 \<and>
   map_option (\<lambda>e. (active e, visible e)) (entityAt (snd (playerRules twinEngine)) ''entity_i'') =
     Some (False, False) \<and>
   map_option (\<lambda>p. (xpos p, ypos p, velocityX p, velocityY p))
     (entityAt (snd (playerRules twinEngine)) ''entity_'') = Some (100, 100, 0, 0) \<and>
   entityAt (snd (playerRules twinEngine)) ''entity_ii'' = entityAt twinEngine ''entity_ii'' \<and>
   score (snd (playerRules twinEngine)) = 50 \<and>
   map_option (\<lambda>p. (xpos p, ypos p, velocityX p, velocityY p))
     (entityAt (snd (playerRules bumpEngine)) ''entity_'') = Some (100, 100, 0, 0) \<and>
   map_option active (entityAt (snd (playerRules bumpEngine)) ''entity_i'') = Some True \<and>
   score (snd (playerRules bumpEngine)) = 0"
proof -
  note f = stomp_scene_facts
  from f(7) obtain pl where pl: "entityAt stompEngine ''entity_'' = Some pl"
    "xpos pl = 300" "ypos pl = 340" "width pl = 32" "height pl = 32" "velocityY pl = 5"
    by auto
  from f(8) obtain en where en: "entityAt stompEngine ''entity_i'' = Some en"
    "xpos en = 300" "ypos en = 368" "width en = 32" "height en = 32" "active en"
    by auto
  have c: "checkCollision pl en"
    by (simp add: checkCollision_def pl en)
  have h: "velocityY pl > 0 \<and> ypos pl + height pl < ypos en + height en / 2"
    by (simp add: pl en)
  have nc: "\<forall>ck \<in> set (getEntitiesByTag (sceneOf stompEngine) ''collectible'').
              \<not> contact stompEngine ''entity_'' ck"
    by (simp add: f(4) f(6))
  have ek: "getEntitiesByTag (sceneOf stompEngine) ''enemy'' = [] @ ''entity_i'' # []"
    by (simp add: f(5))
  have pn: "''entity_'' \<notin> set (getEntitiesByTag (sceneOf stompEngine) ''enemy'')"
    by (simp add: f(5))
  have fr: "\<forall>k \<in> set []. \<not> contact stompEngine ''entity_'' k"
    by simp
  from playerRules_enemy_contact [OF f(1) f(2) f(3) nc ek pn fr pl(1) en(1) en(6) c f(9) f(10)] h
  have A: "entityAt (snd (playerRules stompEngine)) ''entity_i'' =
             Some (en\<lparr>active := False, visible := False\<rparr>)"
    "score (snd (playerRules stompEngine)) = score stompEngine + 50"
    "entityAt (snd (playerRules stompEngine)) ''entity_'' =
       Some (if (\<exists>k \<in> set []. contact stompEngine ''entity_'' k) \<or>
                (\<exists>h. worldHeight demoWorld = Some h \<and> ypos pl > h)
             then spawned demoPlayer pl else pl\<lparr>velocityY := - 7\<rparr>)"
    by simp_all
  from A(3) have A3: "entityAt (snd (playerRules stompEngine)) ''entity_'' = Some (pl\<lparr>velocityY := - 7\<rparr>)"
    by (simp add: f(11) pl)
  have R1: "map_option (\<lambda>p. (xpos p, ypos p, velocityY p)) (entityAt stompEngine ''entity_'') = Some (300, 340, 5)"
    "map_option (\<lambda>e. (xpos e, ypos e, active e)) (entityAt stompEngine ''entity_i'') = Some (300, 368, True)"
    "map_option (\<lambda>e. (active e, visible e)) (entityAt (snd (playerRules stompEngine)) ''entity_i'') =
       Some (False, False)"
    "map_option (\<lambda>p. (xpos p, ypos p, velocityY p)) (entityAt (snd (playerRules stompEngine)) ''entity_'') =
       Some (300, 340, - 7)"
    "score (snd (playerRules stompEngine)) = 50"
    by (simp_all add: A(1,2) A3 pl en f(12))
  note t = twin_scene_facts
  from t(7) obtain pt where pt: "entityAt twinEngine ''entity_'' = Some pt"
    "xpos pt = 300" "ypos pt = 340" "width pt = 32" "height pt = 32" "velocityY pt = 5"
    by auto
  from t(8) obtain et where et: "entityAt twinEngine ''entity_i'' = Some et"
    "xpos et = 300" "ypos et = 368" "width et = 32" "height et = 32" "active et"
    by auto
  have ct: "checkCollision pt et"
    by (simp add: checkCollision_def pt et)
  have ht: "velocityY pt > 0 \<and> ypos pt + height pt < ypos et + height et / 2"
    by (simp add: pt et)
  have nct: "\<forall>ck \<in> set (getEntitiesByTag (sceneOf twinEngine) ''collectible'').
              \<not> contact twinEngine ''entity_'' ck"
    by (simp add: t(4) t(6))
  have ekt: "getEntitiesByTag (sceneOf twinEngine) ''enemy'' = [] @ ''entity_i'' # [''entity_ii'']"
    by (simp add: t(5))
  have pnt: "''entity_'' \<notin> set (getEntitiesByTag (sceneOf twinEngine) ''enemy'')"
    by (simp add: t(5))
  have frt: "\<forall>k \<in> set []. \<not> contact twinEngine ''entity_'' k"
    by simp
  from playerRules_enemy_contact [OF t(1) t(2) t(3) nct ekt pnt frt pt(1) et(1) et(6) ct t(9) t(10)] ht
  have B: "entityAt (snd (playerRules twinEngine)) ''entity_i'' =
             Some (et\<lparr>active := False, visible := False\<rparr>)"
    "score (snd (playerRules twinEngine)) = score twinEngine + 50"
    "entityAt (snd (playerRules twinEngine)) ''entity_'' =
       Some (if (\<exists>k \<in> set [''entity_ii'']. contact twinEngine ''entity_'' k) \<or>
                (\<exists>h. worldHeight demoWorld = Some h \<and> ypos pt > h)
             then spawned demoPlayer pt else pt\<lparr>velocityY := - 7\<rparr>)"
    "\<forall>k. k \<noteq> ''entity_'' \<and> k \<noteq> ''entity_i'' \<longrightarrow>
         entityAt (snd (playerRules twinEngine)) k = entityAt twinEngine k"
    by simp_all
  from B(3) have B3: "entityAt (snd (playerRules twinEngine)) ''entity_'' = Some (spawned demoPlayer pt)"
    by (simp add: t(11))
  from B(4) have B4: "entityAt (snd (playerRules twinEngine)) ''entity_ii'' = entityAt twinEngine ''entity_ii''"
    by simp
  have R2: "map_option (\<lambda>e. (active e, visible e)) (entityAt (snd (playerRules twinEngine)) ''entity_i'') =
       Some (False, False)"
    "map_option (\<lambda>p. (xpos p, ypos p, velocityX p, velocityY p))
       (entityAt (snd (playerRules twinEngine)) ''entity_'') = Some (100, 100, 0, 0)"
    "score (snd (playerRules twinEngine)) = 50"
    by (simp_all add: B(1,2) B3 spawned_demoPlayer t(12))
  note b = bump_scene_facts
  from b(7) obtain pb where pb: "entityAt bumpEngine ''entity_'' = Some pb"
    "xpos pb = 280" "ypos pb = 370" "width pb = 32" "height pb = 32" "velocityY pb = 5"
    by auto
  from b(8) obtain eb where eb: "entityAt bumpEngine ''entity_i'' = Some eb"
    "xpos eb = 300" "ypos eb = 368" "width eb = 32" "height eb = 32" "active eb"
    by auto
  have cb: "checkCollision pb eb"
    by (simp add: checkCollision_def pb eb)
  have hb: "\<not> (velocityY pb > 0 \<and> ypos pb + height pb < ypos eb + height eb / 2)"
    by (simp add: pb eb)
  have ncb: "\<forall>ck \<in> set (getEntitiesByTag (sceneOf bumpEngine) ''collectible'').
              \<not> contact bumpEngine ''entity_'' ck"
    by (simp add: b(4) b(6))
  have ekb: "getEntitiesByTag (sceneOf bumpEngine) ''enemy'' = [] @ ''entity_i'' # []"
    by (simp add: b(5))
  have pnb: "''entity_'' \<notin> set (getEntitiesByTag (sceneOf bumpEngine) ''enemy'')"
    by (simp add: b(5))
  have frb: "\<forall>k \<in> set []. \<not> contact bumpEngine ''entity_'' k"
    by simp
  from playerRules_enemy_contact [OF b(1) b(2) b(3) ncb ekb pnb frb pb(1) eb(1) eb(6) cb b(9) b(10)] hb
  have C: "entityAt (snd (playerRules bumpEngine)) ''entity_'' = Some (spawned demoPlayer pb)"
    "entityAt (snd (playerRules bumpEngine)) ''entity_i'' = Some eb"
    "score (snd (playerRules bumpEngine)) = score bumpEngine"
    by simp_all
  have R3: "map_option (\<lambda>p. (xpos p, ypos p, velocityX p, velocityY p))
       (entityAt (snd (playerRules bumpEngine)) ''entity_'') = Some (100, 100, 0, 0)"
    "map_option active (entityAt (snd (playerRules bumpEngine)) ''entity_i'') = Some True"
    "score (snd (playerRules bumpEngine)) = 0"
    by (simp_all add: C spawned_demoPlayer eb b(11))
  from R1 R2 B4 R3 show ?thesis
    by (intro conjI)
qed

theorem playerRules_two_enemies_counterexample:
  "map_option (\<lambda>p. (xpos p, ypos p, width p, height p, velocityY p)) (entityAt twinEngine ''entity_'') =
     Some (300, 340, 32, 32, 5) \<and>
   map_option (\<lambda>e. (xpos e, ypos e, width e, height e, active e)) (entityAt twinEngine ''entity_i'') =
     Some (300, 368, 32, 32, True) \<and>
   map_option (\<lambda>e. (xpos e, ypos e, width e, height e, active e)) (entityAt twinEngine ''entity_ii'') =
     Some (310, 368, 32, 32, True) \<and>
   fst (playerRules twinEngine) = Returned \<and>
   map_option (\<lambda>e. (active e, visible e)) (entityAt (snd (playerRules twinEngine)) ''entity_i'') =
     Some (False, False) \<and>
   map_option (\<lambda>e. (active e, visible e)) (entityAt (snd (playerRules twinEngine)) ''entity_ii'') =
     Some (True, True) \<and>
   map_option (\<lambda>p. (xpos p, ypos p, velocityX p, velocityY p))
     (entityAt (snd (playerRules twinEngine)) ''entity_'') = Some (100, 100, 0, 0) \<and>
   score twinEngine = 0 \<and> score (snd (playerRules twinEngine)) = 50"
  by code_simp

section \<open>Collectibles in the update pass\<close>



















section \<open>Asset manager: a load that fails\<close>






end
